theory Spec2Isabelle
  imports Main "HOL-Library.Multiset"
begin

section \<open>Python values used by the exporter\<close>

text \<open>
  The exporter of \<^verbatim>\<open>tgadmin/ugc/admin.py\<close> walks Draft.js style blocks (Python dicts) and
  drives a word-processing document library. Exceptions are values of \<open>exn\<close>; every
  \<^verbatim>\<open>try/except\<close> of the source is a case distinction of the model.
  A \<open>char\<close> of the model stands for one character of a Python string.
\<close>

datatype exn = IndexError | KeyError | ValueError | TypeError | AttributeError
  | ZeroDivisionError | UnrecognizedImageError | ExternalError

text \<open>\<^verbatim>\<open>str(n)\<close> for a Python integer.\<close>

definition digit_char :: "nat \<Rightarrow> char" where
  "digit_char d = char_of (48 + d)"

fun str_nat :: "nat \<Rightarrow> string" where
  "str_nat n = (if n < 10 then [digit_char n] else str_nat (n div 10) @ [digit_char (n mod 10)])"

declare str_nat.simps [simp del]

definition str_int :: "int \<Rightarrow> string" where
  "str_int i = (if i < 0 then CHR ''-'' # str_nat (nat (- i)) else str_nat (nat i))"

text \<open>\<^verbatim>\<open>s.split(c)\<close> for a one-character separator: one more piece than separators.\<close>

fun split_on :: "char \<Rightarrow> string \<Rightarrow> string list" where
  "split_on c [] = [[]]"
| "split_on c (x # xs) =
     (if x = c then [] # split_on c xs
      else (case split_on c xs of [] \<Rightarrow> [[x]] | w # ws \<Rightarrow> (x # w) # ws))"

text \<open>\<^verbatim>\<open>xs[1:-1]\<close> on a string or a list: without the first and the last element.\<close>

definition slice_1_m1 :: "'a list \<Rightarrow> 'a list" where
  "slice_1_m1 xs = butlast (tl xs)"

text \<open>\<^verbatim>\<open>s.strip()\<close>: the white space of \<^verbatim>\<open>str.isspace\<close> below code point 256.\<close>

definition isspace :: "char \<Rightarrow> bool" where
  "isspace c = (let n = of_char c :: nat in (9 \<le> n \<and> n \<le> 13) \<or> (28 \<le> n \<and> n \<le> 32) \<or> n = 133 \<or> n = 160)"

definition strip :: "string \<Rightarrow> string" where
  "strip s = rev (dropWhile isspace (rev (dropWhile isspace s)))"

text \<open>
  A Python dict keeps insertion order; assigning to a key that is present replaces the value
  where it stands.
\<close>

fun dict_set :: "('k \<times> 'v) list \<Rightarrow> 'k \<Rightarrow> 'v \<Rightarrow> ('k \<times> 'v) list" where
  "dict_set [] k v = [(k, v)]"
| "dict_set ((k', v') # ps) k v = (if k' = k then (k, v) # ps else (k', v') # dict_set ps k v)"

text \<open>\<^verbatim>\<open>xs.index(x)\<close>: the first position of \<open>x\<close>, ValueError when there is none.\<close>

fun index_of :: "'a list \<Rightarrow> 'a \<Rightarrow> nat option" where
  "index_of [] x = None"
| "index_of (y # ys) x = (if y = x then Some 0 else map_option Suc (index_of ys x))"

text \<open>\<^verbatim>\<open>xs[i]\<close> with Python's negative indices, None for IndexError.\<close>

definition py_nth :: "'a list \<Rightarrow> int \<Rightarrow> 'a option" where
  "py_nth xs i =
     (let n = int (length xs); j = (if i < 0 then n + i else i)
      in if 0 \<le> j \<and> j < n then Some (xs ! nat j) else None)"

section \<open>The markdown table reader\<close>

text \<open>
  \<^verbatim>\<open>_read_markdown_table\<close>: the text loses its first and last character and is cut into
  lines; line 0 gives the header, line 1 is skipped, every later line gives one dict from
  header name to cell value.
\<close>

definition md_cells :: "string \<Rightarrow> string list" where
  "md_cells line = map strip (slice_1_m1 (split_on CHR ''|'' line))"

fun zip_dict :: "(string \<times> string) list \<Rightarrow> (string \<times> string) list \<Rightarrow> (string \<times> string) list" where
  "zip_dict d [] = d"
| "zip_dict d ((col, val) # ps) = zip_dict (dict_set d col val) ps"

definition read_markdown_table :: "string \<Rightarrow> (string \<times> string) list list" where
  "read_markdown_table table =
     (case split_on CHR 0x0A (slice_1_m1 table) of
        [] \<Rightarrow> []
      | l0 # ls \<Rightarrow> map (\<lambda>line. zip_dict [] (zip (md_cells l0) (md_cells line))) (tl ls))"

section \<open>Blocks, entities and the document under construction\<close>

text \<open>
  An entity of the entity map: its \<^verbatim>\<open>type\<close>, and of its \<^verbatim>\<open>data\<close> the \<^verbatim>\<open>style\<close> and
  \<^verbatim>\<open>href\<close> (None when the key is absent). The \<^verbatim>\<open>style\<close> of an inline style range is a
  token string, or the dict \<^verbatim>\<open>{'link': href}\<close> or \<^verbatim>\<open>{'img': entity}\<close> that \<^verbatim>\<open>add_text\<close>
  builds.
\<close>

record entity =
  etype :: "string option"
  estyle :: "string option"
  ehref :: "string option"

datatype style = Tok string | Link string | Img entity

record srange =
  style :: style
  offset :: int
  len :: int

record erange =
  ekey :: string
  eoffset :: int
  elen :: int

text \<open>
  The \<^verbatim>\<open>data\<close> payload of a block, by the keys the exporter reads, and the block itself.
  \<open>ekey\<close> is \<^verbatim>\<open>str(entity.get('key'))\<close>. A block carries its type, key, text, depth
  and the two lists of ranges, as the blocks of the editor do, so that reading one of them
  with a subscript does not raise and the defaults of \<^verbatim>\<open>.get\<close> are not used; the keys of
  \<^verbatim>\<open>data\<close> may be absent. \<open>d_table_cols\<close> is \<^verbatim>\<open>data['table']['cols']\<close> of a block whose
  data has a table descriptor. The texts of the model have the characters below code point
  256, so the picture glyph that the IMG style removes is not among them.
\<close>

record bdata =
  d_table_cols :: "nat option"
  d_src :: "string option"
  d_label :: "string option"
  d_type :: "string option"
  d_align :: "string option"
  d_depth :: "int option"
  d_style :: "string option"

record block =
  btype :: string
  bkey :: string
  btext :: string
  bdepth :: int
  entityRanges :: "erange list"
  inlineStyleRanges :: "srange list"
  bdata :: bdata

text \<open>
  The document library is the sink: a body of paragraphs and tables, a paragraph or a table
  cell holding runs. Sizes are in EMU (\<^verbatim>\<open>Pt(12) = 152400\<close>). Borders, shading of cells,
  widths, alignment and the fonts of the paragraph styles are not part of the model.
\<close>

record run =
  rtext :: string
  bold :: bool
  italic :: bool
  underline :: bool
  fsize :: "int option"
  fname :: "string option"
  fcolor :: "(nat \<times> nat \<times> nat) option"
  shade :: "string list"
  hyperlink :: "(string \<times> string) list"
  pictures :: "(int \<times> int) list"
  page_break :: bool

datatype element = Paragraph string "run list" | Table nat "run list list list"

text \<open>A handle on a paragraph: of the body, or the first paragraph of a table cell.\<close>

datatype pref = InBody nat | InCell nat nat nat

definition plain_run :: "string \<Rightarrow> run" where
  "plain_run t = \<lparr>rtext = t, bold = False, italic = False, underline = False, fsize = None,
     fname = None, fcolor = None, shade = [], hyperlink = [], pictures = [], page_break = False\<rparr>"

definition Pt12 :: int where "Pt12 = 152400"
definition font_color_rgb :: "nat \<times> nat \<times> nat" where "font_color_rgb = (64, 64, 64)"
definition font_name :: string where "font_name = ''Inter''"

text \<open>
  What the exporter cannot decide alone: the IMG branch of \<^verbatim>\<open>set_styles\<close> (an HTTP fetch and
  a picture decode; None when it raises), and the collaborators of \<^verbatim>\<open>_set_picture\<close> and of
  the block handlers.
\<close>

record env =
  img_style :: "entity \<Rightarrow> run \<Rightarrow> run option"
  b64_image :: "string \<Rightarrow> string option"
  http_get :: "string \<Rightarrow> (string option \<times> string) option"
  svg2png :: "(string \<Rightarrow> string option) option"
  with_border :: "string \<Rightarrow> string option"
  add_picture :: "string \<Rightarrow> exn + (int \<times> int)"
  quote_icon :: "string \<Rightarrow> bool"
  scaled_height :: "int \<Rightarrow> int \<Rightarrow> int option"
  float_picture :: "run option"
  video_thumb :: "string \<Rightarrow> string option"

record exporter =
  body :: "element list"
  the_paragraph :: "pref option"
  depth_level :: int
  table :: "nat option"
  table_col_index :: int
  cols_num :: int
  cells :: nat
  rows :: nat
  dict_tbl :: "nat option"
  cells_d :: nat
  rows_d :: nat
  step_header_num :: int
  step_list_num :: int
  entity_map :: "(string \<times> entity) list"
  article_blocks :: "block list"
  keys :: "string list"
  doc_version :: int
  captured :: "exn list"

section \<open>Styles and text runs\<close>

fun contains :: "string \<Rightarrow> string \<Rightarrow> bool" where
  "contains p [] = (p = [])"
| "contains p (x # xs) = (take (length p) (x # xs) = p \<or> contains p xs)"

text \<open>
  \<^verbatim>\<open>saves[i]['run']\<close>: the run of character \<open>i\<close> and whether the reference is still held
  (\<^verbatim>\<open>set_styles\<close> returns None after a failure, and the run stays in its paragraph).
\<close>

record slot =
  srun :: run
  alive :: bool

text \<open>
  \<^verbatim>\<open>set_styles(name, run, self, text)\<close>, with the exceptions it reports. \<open>has_par\<close> says
  that \<^verbatim>\<open>self._paragraph\<close> is set, which \<^verbatim>\<open>_add_link_by_run\<close> needs. For a token string
  \<^verbatim>\<open>'link' in name\<close> is a substring test, and \<^verbatim>\<open>name['link']\<close> then raises.
  \<^verbatim>\<open>_add_link_by_run\<close> assigns \<^verbatim>\<open>run_old.text = ''\<close>, which removes what the run holds apart
  from its properties (its text, a break, a picture, a hyperlink put there before), and then
  appends the new hyperlink: a run has at most one.
\<close>

definition dead :: "slot \<Rightarrow> exn list \<Rightarrow> slot \<times> exn list" where
  "dead sl es = (sl\<lparr>alive := False\<rparr>, es)"

definition set_styles :: "env \<Rightarrow> bool \<Rightarrow> style \<Rightarrow> slot \<Rightarrow> string \<Rightarrow> slot \<times> exn list" where
  "set_styles ev has_par name sl text =
     (let r = srun sl in
      case name of
        Link href \<Rightarrow>
          if has_par \<and> alive sl
          then (sl\<lparr>srun := r\<lparr>rtext := [], pictures := [], page_break := False,
                                   hyperlink := [(href, text)]\<rparr>\<rparr>, [])
          else dead sl [AttributeError]
      | Img e \<Rightarrow>
          if alive sl
          then (case img_style ev e r of
                  None \<Rightarrow> dead sl [ExternalError]
                | Some r' \<Rightarrow> (sl\<lparr>srun := r'\<rparr>, []))
          else dead sl [AttributeError]
      | Tok n \<Rightarrow>
          if contains ''link'' n then dead sl [TypeError]
          else if contains ''img'' n then dead sl [if alive sl then TypeError else AttributeError]
          else if n = ''header-step'' then
            (if alive sl then (sl\<lparr>srun := r\<lparr>bold := True, fsize := Some 133350\<rparr>\<rparr>, [])
             else dead sl [AttributeError])
          else if n = ''BOLD'' then
            (if alive sl then (sl\<lparr>srun := r\<lparr>bold := True\<rparr>\<rparr>, []) else dead sl [AttributeError])
          else if n = ''ITALIC'' then
            (if alive sl then (sl\<lparr>srun := r\<lparr>italic := True\<rparr>\<rparr>, []) else dead sl [AttributeError])
          else if n = ''UNDERLINE'' then
            (if alive sl then (sl\<lparr>srun := r\<lparr>underline := True\<rparr>\<rparr>, []) else dead sl [AttributeError])
          else if n = ''CODE'' then
            (if alive sl
             then (sl\<lparr>srun := r\<lparr>fcolor := Some (68, 114, 196), fsize := Some Pt12,
                                   fname := Some ''Times New Roman''\<rparr>\<rparr>, [])
             else dead sl [AttributeError])
          else if n = ''KBD'' then
            (if alive sl
             then (sl\<lparr>srun := r\<lparr>fsize := Some 139700, fname := Some ''Courier New'',
                                   shade := shade r @ [''e7e6e6'']\<rparr>\<rparr>, [])
             else dead sl [AttributeError])
          else if n = ''DFN'' then
            (if alive sl then (sl\<lparr>srun := r\<lparr>shade := shade r @ [''#b3c6e7'']\<rparr>\<rparr>, [])
             else dead sl [AttributeError])
          else (sl, []))"

text \<open>
  The first loop of \<^verbatim>\<open>add_text\<close>: every entity range whose entity has type LINK or IMG is
  appended to the style ranges. A LINK entity without \<^verbatim>\<open>data.href\<close> raises KeyError, which
  ends \<^verbatim>\<open>add_text\<close> with the ranges appended so far.
\<close>

fun fold_entities :: "(string \<times> entity) list \<Rightarrow> erange list \<Rightarrow> srange list \<Rightarrow> exn option \<times> srange list" where
  "fold_entities em [] rs = (None, rs)"
| "fold_entities em (e # es) rs =
     (case map_of em (ekey e) of
        None \<Rightarrow> fold_entities em es rs
      | Some ent \<Rightarrow>
          (case etype ent of
             None \<Rightarrow> fold_entities em es rs
           | Some t \<Rightarrow>
               if t = ''LINK'' then
                 (case ehref ent of
                    None \<Rightarrow> (Some KeyError, rs)
                  | Some h \<Rightarrow> fold_entities em es
                      (rs @ [\<lparr>style = Link h, offset = eoffset e, len = elen e\<rparr>]))
               else if t = ''IMG'' then
                 fold_entities em es (rs @ [\<lparr>style = Img ent, offset = eoffset e, len = elen e\<rparr>])
               else fold_entities em es rs))"

text \<open>
  The bubble sort of \<^verbatim>\<open>add_text\<close>. \<open>bubble_pass m\<close> is the inner loop over
  \<open>j = 0, ..., m - 1\<close>: neighbours \<open>j\<close> and \<open>j + 1\<close> are swapped when the left
  offset is greater. The outer loop runs it with \<open>m = n - 1, n - 2, ..., 1\<close>.
\<close>

fun bubble_pass :: "nat \<Rightarrow> srange list \<Rightarrow> srange list" where
  "bubble_pass (Suc m) (x # y # zs) =
     (if offset x > offset y then y # bubble_pass m (x # zs) else x # bubble_pass m (y # zs))"
| "bubble_pass m xs = xs"

fun bubble_outer :: "nat \<Rightarrow> srange list \<Rightarrow> srange list" where
  "bubble_outer 0 xs = xs"
| "bubble_outer (Suc m) xs = bubble_outer m (bubble_pass (Suc m) xs)"

definition bubble_sort :: "srange list \<Rightarrow> srange list" where
  "bubble_sort xs = bubble_outer (length xs - 1) xs"

text \<open>
  The runs of the text, one for each character, and the style loop: a range styles the
  characters \<open>offset \<le> i < offset + length\<close> that exist, in ascending order.
\<close>

definition base_run :: "char \<Rightarrow> run" where
  "base_run c = (plain_run [c])\<lparr>fsize := Some Pt12, fname := Some font_name,
     fcolor := Some font_color_rgb\<rparr>"

fun style_chars :: "env \<Rightarrow> bool \<Rightarrow> srange \<Rightarrow> nat \<Rightarrow> (char \<times> slot) list \<Rightarrow> slot list \<times> exn list" where
  "style_chars ev hp sr i [] = ([], [])"
| "style_chars ev hp sr i ((c, sl) # rest) =
     (let (sl', es) = (if offset sr \<le> int i \<and> int i < offset sr + len sr
                       then set_styles ev hp (style sr) sl [c] else (sl, []));
          (sls, es') = style_chars ev hp sr (Suc i) rest
      in (sl' # sls, es @ es'))"

fun apply_styles :: "env \<Rightarrow> bool \<Rightarrow> string \<Rightarrow> srange list \<Rightarrow> slot list \<Rightarrow> slot list \<times> exn list" where
  "apply_styles ev hp text [] sls = (sls, [])"
| "apply_styles ev hp text (sr # srs) sls =
     (let (sls', es) = style_chars ev hp sr 0 (zip text sls);
          (sls'', es') = apply_styles ev hp text srs sls'
      in (sls'', es @ es'))"

definition text_runs :: "env \<Rightarrow> bool \<Rightarrow> string \<Rightarrow> srange list \<Rightarrow> run list \<times> exn list" where
  "text_runs ev hp text srs =
     (let (sls, es) = apply_styles ev hp text srs (map (\<lambda>c. \<lparr>srun = base_run c, alive = True\<rparr>) text)
      in (map srun sls, es))"

text \<open>Appending runs to the paragraph a handle points at.\<close>

fun append_runs :: "element list \<Rightarrow> pref \<Rightarrow> run list \<Rightarrow> element list" where
  "append_runs els (InBody i) rs =
     (if i < length els then
        (case els ! i of Paragraph st old \<Rightarrow> els[i := Paragraph st (old @ rs)] | Table c rws \<Rightarrow> els)
      else els)"
| "append_runs els (InCell t r c) rs =
     (if t < length els then
        (case els ! t of
           Paragraph st old \<Rightarrow> els
         | Table n rws \<Rightarrow>
             if r < length rws \<and> c < length (rws ! r)
             then els[t := Table n (rws[r := (rws ! r)[c := (rws ! r) ! c @ rs]])]
             else els)
      else els)"

text \<open>
  \<^verbatim>\<open>add_text(block, paragraph)\<close>. The ranges list is the block's own list, so the block comes
  back with it: entity ranges folded in, the header-step range appended, sorted. Without a
  paragraph the first \<^verbatim>\<open>add_run\<close> raises; every exception is caught and reported.
\<close>

definition add_text :: "env \<Rightarrow> exporter \<Rightarrow> block \<Rightarrow> pref option \<Rightarrow> exporter \<times> block" where
  "add_text ev s b par =
     (case fold_entities (entity_map s) (entityRanges b) (inlineStyleRanges b) of
        (Some e, rs) \<Rightarrow> (s\<lparr>captured := captured s @ [e]\<rparr>, b\<lparr>inlineStyleRanges := rs\<rparr>)
      | (None, rs) \<Rightarrow>
          (let rs1 = (if btype b = ''header-step''
                      then rs @ [\<lparr>style = Tok ''header-step'', offset = 0, len = int (length (btext b))\<rparr>]
                      else rs);
               rs2 = bubble_sort rs1;
               b' = b\<lparr>inlineStyleRanges := rs2\<rparr>;
               tgt = (case par of None \<Rightarrow> the_paragraph s | Some p \<Rightarrow> Some p)
           in if btext b = [] then (s, b')
              else (case tgt of
                      None \<Rightarrow> (s\<lparr>captured := captured s @ [AttributeError]\<rparr>, b')
                    | Some p \<Rightarrow>
                        (let (rns, es) = text_runs ev (the_paragraph s \<noteq> None) (btext b) rs2
                         in (s\<lparr>body := append_runs (body s) p rns, captured := captured s @ es\<rparr>, b')))))"

section \<open>The sink's primitives\<close>

text \<open>
  The document is the one \<^verbatim>\<open>Document()\<close> gives, made from the default template of the
  document library. \<open>default_styles\<close> are the paragraph styles of that template, by the
  names that \<^verbatim>\<open>style.name\<close> reports; its list styles end at level 3. For some styles the
  template stores a second spelling, under which a style is found as well
  (\<open>style_aliases\<close>, the stored spelling first).
\<close>

definition default_styles :: "string list" where
  "default_styles = [''Normal'', ''Header'', ''Footer'', ''Heading 1'', ''Heading 2'', ''Heading 3'',
     ''Heading 4'', ''Heading 5'', ''Heading 6'', ''Heading 7'', ''Heading 8'', ''Heading 9'',
     ''No Spacing'', ''Title'', ''Subtitle'', ''List Paragraph'', ''Body Text'', ''Body Text 2'',
     ''Body Text 3'', ''List'', ''List 2'', ''List 3'', ''List Bullet'', ''List Bullet 2'',
     ''List Bullet 3'', ''List Number'', ''List Number 2'', ''List Number 3'', ''List Continue'',
     ''List Continue 2'', ''List Continue 3'', ''macro'', ''Quote'', ''Caption'', ''Intense Quote'',
     ''TOC Heading'']"

definition style_aliases :: "(string \<times> string) list" where
  "style_aliases = [(''caption'', ''Caption''), (''footer'', ''Footer''), (''header'', ''Header''),
     (''heading 1'', ''Heading 1''), (''heading 2'', ''Heading 2''), (''heading 3'', ''Heading 3''),
     (''heading 4'', ''Heading 4''), (''heading 5'', ''Heading 5''), (''heading 6'', ''Heading 6''),
     (''heading 7'', ''Heading 7''), (''heading 8'', ''Heading 8''), (''heading 9'', ''Heading 9'')]"

definition ui_name :: "string \<Rightarrow> string" where
  "ui_name st = (case map_of style_aliases st of None \<Rightarrow> st | Some u \<Rightarrow> u)"

text \<open>
  \<^verbatim>\<open>__add_paragraph(self.document, style)\<close>. The library appends an empty paragraph to the
  body and then gives it the style; a name that the document has no paragraph style for
  raises KeyError at that point, inside the \<^verbatim>\<open>try\<close> of \<^verbatim>\<open>__add_paragraph\<close>: the exception is
  reported, the paragraph stays in the body with the default style, and \<^verbatim>\<open>self._paragraph\<close>
  is not assigned. Otherwise the new paragraph becomes the current one. A paragraph of the
  model carries the name that its style has in the template.
  \<^verbatim>\<open>add_table(rows, cols)\<close> appends a table of empty cells; \<^verbatim>\<open>add_row\<close> appends a row with
  one cell for each column.
\<close>

definition add_paragraph :: "exporter \<Rightarrow> string \<Rightarrow> exporter" where
  "add_paragraph s st =
     (if ui_name st \<in> set default_styles
      then s\<lparr>body := body s @ [Paragraph (ui_name st) []],
             the_paragraph := Some (InBody (length (body s)))\<rparr>
      else s\<lparr>body := body s @ [Paragraph ''Normal'' []], captured := captured s @ [KeyError]\<rparr>)"

definition new_table :: "nat \<Rightarrow> nat \<Rightarrow> element" where
  "new_table r c = Table c (replicate r (replicate c []))"

fun add_row :: "element \<Rightarrow> element" where
  "add_row (Table c rws) = Table c (rws @ [replicate c []])"
| "add_row (Paragraph st rs) = Paragraph st rs"

fun table_rows :: "element \<Rightarrow> run list list list" where
  "table_rows (Table c rws) = rws"
| "table_rows (Paragraph st rs) = []"

fun table_cols :: "element \<Rightarrow> nat" where
  "table_cols (Table c rws) = c"
| "table_cols (Paragraph st rs) = 0"

definition cell_text :: "run list \<Rightarrow> string" where
  "cell_text rs = concat (map rtext rs)"

definition reset_non_general :: "exporter \<Rightarrow> exporter" where
  "reset_non_general s = s\<lparr>table := None, table_col_index := 0, cols_num := 0\<rparr>"

definition add_run :: "exporter \<Rightarrow> run \<Rightarrow> exn option \<times> exporter" where
  "add_run s r =
     (case the_paragraph s of
        None \<Rightarrow> (Some AttributeError, s)
      | Some p \<Rightarrow> (None, s\<lparr>body := append_runs (body s) p [r]\<rparr>))"

definition capture :: "exn option \<times> exporter \<Rightarrow> exporter" where
  "capture r = (case r of (None, s) \<Rightarrow> s | (Some e, s) \<Rightarrow> s\<lparr>captured := captured s @ [e]\<rparr>)"

section \<open>Table cells\<close>

text \<open>
  \<^verbatim>\<open>_add_table_cell\<close>. For document version 3 a table is opened when the block's data
  carries a table descriptor, with the descriptor's column count, and the cell cursor is
  reset. Otherwise the block before this one (by its key; index \<open>-1\<close> is the last block) is
  looked at: the table handle is dropped unless that block is a cell of the same depth, and
  without a handle a table is opened whose column count comes from the depth.
\<close>

definition open_table :: "exporter \<Rightarrow> nat \<Rightarrow> exporter" where
  "open_table s c = s\<lparr>body := body s @ [new_table 1 c], table := Some (length (body s))\<rparr>"

definition table_for_depth :: "exporter \<Rightarrow> int \<Rightarrow> exporter" where
  "table_for_depth s d =
     (if d = 0 then open_table s 2
      else if d = 1 then open_table s 4
      else if d = 3 then open_table s 3
      else if d = 2 then open_table s 2
      else open_table s 1)"

definition cell_open :: "exporter \<Rightarrow> block \<Rightarrow> exn option \<times> exporter" where
  "cell_open s b =
     (if doc_version s = 3 then
        (case d_table_cols (bdata b) of
           Some c \<Rightarrow> (None, (open_table s c)\<lparr>cells := 0\<rparr>)
         | None \<Rightarrow> (None, s))
      else
        (case index_of (keys s) (bkey b) of
           None \<Rightarrow> (Some ValueError, s)
         | Some k \<Rightarrow>
             (let index_old = int k - 1 in
              case py_nth (article_blocks s) index_old of
                None \<Rightarrow> (Some IndexError, s)
              | Some old_block \<Rightarrow>
                  (let s1 = (if btype old_block \<noteq> ''cell'' \<or> index_old < 0 \<or> bdepth old_block \<noteq> bdepth b
                             then s\<lparr>table := None\<rparr> else s)
                   in (None, if table s1 = None then table_for_depth s1 (bdepth b) else s1)))))"

definition cell_write :: "env \<Rightarrow> exporter \<Rightarrow> block \<Rightarrow> exn option \<times> exporter" where
  "cell_write ev s b =
     (case table s of
        None \<Rightarrow> (Some AttributeError, s)
      | Some t \<Rightarrow>
          (let rws = table_rows (body s ! t);
               last_row = length rws - 1
           in if cells s < length (rws ! last_row)
              then (None, (fst (add_text ev s b (Some (InCell t last_row (cells s)))))\<lparr>cells := cells s + 1\<rparr>)
              else
                (let s1 = s\<lparr>cells := 0, body := (body s)[t := add_row (body s ! t)]\<rparr>;
                     new_row = length (table_rows (body s1 ! t)) - 1
                 in if 0 < table_cols (body s1 ! t)
                    then (None, (fst (add_text ev s1 b (Some (InCell t new_row 0))))\<lparr>cells := 1\<rparr>)
                    else (Some IndexError, s1))))"

definition add_table_cell :: "env \<Rightarrow> exporter \<Rightarrow> block \<Rightarrow> exporter" where
  "add_table_cell ev s b =
     capture (case cell_open s b of
                (Some e, s1) \<Rightarrow> (Some e, s1)
              | (None, s1) \<Rightarrow> cell_write ev s1 b)"

section \<open>Dictionaries\<close>

text \<open>\<^verbatim>\<open>_add_dict\<close>: a table of three columns whose middle column takes no text.\<close>

definition add_dict :: "env \<Rightarrow> exporter \<Rightarrow> block \<Rightarrow> exporter" where
  "add_dict ev s b =
     capture
       (case index_of (keys s) (bkey b) of
          None \<Rightarrow> (Some ValueError, s)
        | Some k \<Rightarrow>
            (let index_old = int k - 1 in
             case py_nth (article_blocks s) index_old of
               None \<Rightarrow> (Some IndexError, s)
             | Some old_block \<Rightarrow>
                 (let s1 = (if btype old_block \<noteq> ''dictionary'' \<or> 0 > index_old
                            then s\<lparr>dict_tbl := None\<rparr> else s);
                      s2 = (if dict_tbl s1 = None
                            then s1\<lparr>body := body s1 @ [new_table 1 3], dict_tbl := Some (length (body s1)),
                                    cells_d := 0, rows_d := 0\<rparr>
                            else s1)
                  in case dict_tbl s2 of
                       None \<Rightarrow> (Some AttributeError, s2)
                     | Some t \<Rightarrow>
                         (let rws = table_rows (body s2 ! t);
                              s3 = (if cells_d s2 < length (rws ! (length rws - 1)) then s2
                                    else s2\<lparr>cells_d := 0, body := (body s2)[t := add_row (body s2 ! t)]\<rparr>);
                              last_row = length (table_rows (body s3 ! t)) - 1;
                              s4 = (if cells_d s3 = 1 then s3\<lparr>cells_d := 2\<rparr> else s3);
                              s5 = fst (add_text ev s4 b (Some (InCell t last_row (cells_d s4))))
                          in (None, s5\<lparr>cells_d := cells_d s4 + 1\<rparr>)))))"

section \<open>List items, header steps, headers\<close>

text \<open>
  \<^verbatim>\<open>_add_list_item\<close>. \<open>list_level\<close> is the local \<^verbatim>\<open>depth_level\<close> after the branch on the
  type: \<^verbatim>\<open>depth + 2 if depth + 2 <= 4 else 3\<close> for an ordered item, \<^verbatim>\<open>depth + 2\<close> for an
  unordered one. The style name of the current paragraph is read for an ordered item, which
  raises when there is no current paragraph; \<open>style_name\<close> is the name the style has in
  the template. (\<^verbatim>\<open>_add_gist\<close> and \<^verbatim>\<open>_add_block_code\<close> give the default paragraph style the
  name \<^verbatim>\<open>HTML Preformatted\<close>; the name compared here starts with \<^verbatim>\<open>List Number\<close>, so the
  test comes out the same under either name, and a later request for \<^verbatim>\<open>Normal\<close> is
  answered through the identifier of the style.)
\<close>

definition list_level :: "string \<Rightarrow> int \<Rightarrow> int" where
  "list_level ty d =
     (if ty = ''ordered-list-item'' then (if d + 2 \<le> 4 then d + 2 else 3)
      else if ty = ''unordered-list-item'' then d + 2
      else d)"

fun style_name :: "element list \<Rightarrow> pref \<Rightarrow> string" where
  "style_name els (InBody i) = (case els ! i of Paragraph st rs \<Rightarrow> st | Table c rws \<Rightarrow> ''Normal'')"
| "style_name els (InCell t r c) = ''Normal''"

definition add_list_item :: "env \<Rightarrow> exporter \<Rightarrow> block \<Rightarrow> exporter \<times> block" where
  "add_list_item ev s b =
     (let depth_level = list_level (btype b) (bdepth b) in
      if btype b = ''ordered-list-item'' then
        (let style_now = ''List Number '' @ str_int depth_level in
         case the_paragraph s of
           None \<Rightarrow> (s\<lparr>captured := captured s @ [AttributeError]\<rparr>, b)
         | Some p \<Rightarrow>
             (let s1 = (if style_name (body s) p \<noteq> style_now
                        then snd (add_run (add_paragraph s ''Normal'') (plain_run [CHR 0x0A]))
                        else s)
              in add_text ev (add_paragraph s1 style_now) b None))
      else if btype b = ''unordered-list-item'' then
        add_text ev (add_paragraph s (''List Bullet '' @ str_int depth_level)) b None
      else add_text ev s b None)"

text \<open>
  \<^verbatim>\<open>_add_header_step\<close>: a new paragraph, the counter plus one, the prefix as a block of its
  own with one header-step range over all of it, then the block's text.
\<close>

definition num_block :: "string \<Rightarrow> block" where
  "num_block num = \<lparr>btype = ''unstyled'', bkey = [], btext = num, bdepth = 0, entityRanges = [],
     inlineStyleRanges = [\<lparr>style = Tok ''header-step'', offset = 0, len = int (length num)\<rparr>],
     bdata = \<lparr>d_table_cols = None, d_src = None, d_label = None, d_type = None, d_align = None,
               d_depth = None, d_style = None\<rparr>\<rparr>"

definition add_header_step :: "env \<Rightarrow> exporter \<Rightarrow> block \<Rightarrow> exporter \<times> block" where
  "add_header_step ev s b =
     (let s1 = add_paragraph (s\<lparr>depth_level := bdepth b\<rparr>) ''Normal'';
          s2 = s1\<lparr>step_header_num := step_header_num s1 + 1\<rparr>;
          num = str_int (step_header_num s2) @ ''. '';
          s3 = fst (add_text ev s2 (num_block num) None)
      in add_text ev s3 b None)"

text \<open>\<^verbatim>\<open>_add_headers\<close>, which has no handler of its own for exceptions.\<close>

definition add_headers :: "exporter \<Rightarrow> block \<Rightarrow> exn option \<times> exporter" where
  "add_headers s b =
     (if btype b = ''header-two'' then
        add_run (add_paragraph s ''heading 1'')
          ((plain_run (btext b))\<lparr>fsize := Some 203200, fcolor := Some (52, 171, 118),
                                 fname := Some ''Inter'', bold := True\<rparr>)
      else if btype b = ''header-three'' then
        add_run (add_paragraph s ''Normal'')
          ((plain_run (btext b))\<lparr>fsize := Some Pt12, fname := Some font_name,
                                 fcolor := Some font_color_rgb, bold := True\<rparr>)
      else (None, s))"

section \<open>Markdown tables\<close>

text \<open>
  \<^verbatim>\<open>_add_mdtable\<close>: nothing for an empty reading; otherwise a table with as many columns as
  the first data row has values, a row of the first dict's keys, and one row for each dict.
  Writing a value beyond the last column raises IndexError, which leaves the function.
\<close>

definition text_cell :: "string \<Rightarrow> run list" where
  "text_cell t = [plain_run t]"

fun fill_rows :: "nat \<Rightarrow> string list list \<Rightarrow> run list list list \<Rightarrow> exn option \<times> run list list list" where
  "fill_rows c [] acc = (None, acc)"
| "fill_rows c (vs # vss) acc =
     (let row = map text_cell (take c vs) @ replicate (c - length vs) []
      in if length vs > c then (Some IndexError, acc @ [row]) else fill_rows c vss (acc @ [row]))"

definition add_mdtable :: "exporter \<Rightarrow> block \<Rightarrow> exn option \<times> exporter" where
  "add_mdtable s b =
     (let json_table = read_markdown_table (btext b) in
      case json_table of
        [] \<Rightarrow> (None, s)
      | first # others \<Rightarrow>
          (let header_row = map fst first;
               columns = map (map snd) json_table;
               c = length (hd columns);
               (e, rws) = fill_rows c columns [map text_cell header_row]
           in (e, s\<lparr>body := body s @ [Table c rws]\<rparr>)))"

section \<open>Pictures\<close>

text \<open>
  \<^verbatim>\<open>_set_picture\<close>. \<open>load_image\<close> is the part that produces the image stream: from a data
  URL, or by an HTTP request, with the SVG conversion and the border composition; it gives
  the stream and the values of \<^verbatim>\<open>label\<close> and \<^verbatim>\<open>border\<close> it leaves. The picture is then added
  to a new run; \<^verbatim>\<open>except UnrecognizedImageError as e: raise e\<close> raises the exception again,
  inside the \<^verbatim>\<open>try\<close> whose handler \<^verbatim>\<open>except Exception\<close> closes the function.
\<close>

definition images_max_width :: int where
  "images_max_width = 5328000"

definition load_image :: "env \<Rightarrow> string \<Rightarrow> string \<Rightarrow> bool \<Rightarrow> exn + (string \<times> string \<times> bool)" where
  "load_image ev url label border =
     (if contains ''data:image'' url then
        (case split_on CHR '','' url of
           [header, content] \<Rightarrow>
             (case b64_image ev content of
                None \<Rightarrow> Inl ExternalError
              | Some stream \<Rightarrow>
                  if length (split_on CHR ''/'' header) < 2 then Inl IndexError
                  else Inr (stream, [], border))
         | _ \<Rightarrow> Inl ValueError)
      else
        (case http_get ev url of
           None \<Rightarrow> Inl ExternalError
         | Some (None, content) \<Rightarrow> Inl KeyError
         | Some (Some ct, content) \<Rightarrow>
             if ct = ''image/svg+xml'' then
               (case svg2png ev of
                  None \<Rightarrow> Inl ValueError
                | Some f \<Rightarrow> (case f content of None \<Rightarrow> Inl ExternalError | Some c \<Rightarrow> Inr (c, [], False)))
             else if border then
               (case with_border ev content of None \<Rightarrow> Inl ExternalError | Some st \<Rightarrow> Inr (st, label, border))
             else Inr (content, label, border)))"

definition place_picture :: "env \<Rightarrow> exporter \<Rightarrow> string \<Rightarrow> string \<Rightarrow> exn option \<times> exporter" where
  "place_picture ev s stream label =
     (case add_picture ev stream of
        Inl e \<Rightarrow> (Some e, snd (add_run s (plain_run [])))
      | Inr (w, h) \<Rightarrow>
          if w > images_max_width then
            (case scaled_height ev w h of
               None \<Rightarrow> (Some ZeroDivisionError, snd (add_run s ((plain_run [])\<lparr>pictures := [(w, h)]\<rparr>)))
             | Some h' \<Rightarrow>
                 (let s1 = snd (add_run s ((plain_run [])\<lparr>pictures := [(images_max_width, h')]\<rparr>))
                  in if label \<noteq> []
                     then add_run (add_paragraph s1 ''Caption'')
                            ((plain_run label)\<lparr>fcolor := Some font_color_rgb, bold := True\<rparr>)
                     else (None, s1)))
          else
            (let s1 = snd (add_run s ((plain_run [])\<lparr>pictures := [(w, h)]\<rparr>))
             in if label \<noteq> []
                then add_run (add_paragraph s1 ''Caption'')
                       ((plain_run label)\<lparr>fcolor := Some font_color_rgb, bold := True\<rparr>)
                else (None, s1)))"

definition set_picture_body :: "env \<Rightarrow> exporter \<Rightarrow> string \<Rightarrow> string \<Rightarrow> int \<Rightarrow> bool \<Rightarrow> bool \<Rightarrow> bool
    \<Rightarrow> exn option \<times> exporter" where
  "set_picture_body ev s url label depth reset_ng set_automaticly border =
     (let s1 = s\<lparr>depth_level := depth_level s + depth\<rparr>;
          s2 = (if reset_ng then reset_non_general s1 else s1);
          s3 = add_paragraph s2 ''Normal''
      in case load_image ev url label border of
           Inl e \<Rightarrow> (Some e, s3)
         | Inr (stream, label', border') \<Rightarrow>
             if set_automaticly then
               (case place_picture ev s3 stream label' of
                  (Some e, s4) \<Rightarrow> (Some e, s4)
                | (None, s4) \<Rightarrow> (None, s4\<lparr>depth_level := depth_level s4 - depth\<rparr>))
             else (None, s3))"

definition set_picture :: "env \<Rightarrow> exporter \<Rightarrow> string \<Rightarrow> string \<Rightarrow> int \<Rightarrow> bool \<Rightarrow> bool \<Rightarrow> bool \<Rightarrow> exporter" where
  "set_picture ev s url label depth reset_ng set_automaticly border =
     (if url = [] then s
      else capture (set_picture_body ev s url label depth reset_ng set_automaticly border))"

definition opt_str :: "string option \<Rightarrow> string" where
  "opt_str x = (case x of None \<Rightarrow> [] | Some t \<Rightarrow> t)"

definition add_figure :: "env \<Rightarrow> exporter \<Rightarrow> block \<Rightarrow> exporter" where
  "add_figure ev s b =
     set_picture ev s (opt_str (d_src (bdata b))) (opt_str (d_label (bdata b)))
       (case d_depth (bdata b) of None \<Rightarrow> 0 | Some d \<Rightarrow> d) True True True"

section \<open>The other block handlers\<close>

text \<open>\<^verbatim>\<open>add_block_link\<close>: the text and, on a line of its own, the address of the link.\<close>

definition block_entity :: "exporter \<Rightarrow> erange \<Rightarrow> bool" where
  "block_entity s e =
     (case map_of (entity_map s) (ekey e) of None \<Rightarrow> False | Some ent \<Rightarrow> estyle ent = Some ''block'')"

definition add_block_link :: "exporter \<Rightarrow> block \<Rightarrow> exporter" where
  "add_block_link s b =
     (let s1 = add_paragraph s ''Normal'';
          hits = filter (block_entity s) (entityRanges b);
          href = (if hits = [] then []
                  else (case map_of (entity_map s) (ekey (last hits)) of
                          None \<Rightarrow> [] | Some ent \<Rightarrow> opt_str (ehref ent)));
          text = (if hits = [] then [] else btext b);
          run_text = (plain_run (text @ [CHR 0x0A]))\<lparr>fcolor := Some (76, 174, 227), italic := True,
                        fsize := Some Pt12, fname := Some font_name\<rparr>;
          run_href = (plain_run href)\<lparr>italic := True, fsize := Some Pt12, fname := Some font_name\<rparr>
      in snd (add_run (snd (add_run s1 run_text)) run_href))"

text \<open>\<^verbatim>\<open>_add_gist\<close> and \<^verbatim>\<open>_add_block_code\<close>: tables of fixed shape holding plain text.\<close>

definition code_run :: "string \<Rightarrow> run" where
  "code_run t = (plain_run t)\<lparr>fsize := Some 127000, fname := Some ''Courier New''\<rparr>"

definition add_gist :: "exporter \<Rightarrow> block \<Rightarrow> exporter" where
  "add_gist s b =
     (let s1 = add_paragraph s ''Normal''
      in s1\<lparr>body := body s1 @ [Table 1 [[[code_run (opt_str (d_src (bdata b)))]]]]\<rparr>)"

definition add_block_code :: "exporter \<Rightarrow> block \<Rightarrow> exporter" where
  "add_block_code s b =
     (let s1 = add_paragraph s ''Normal'';
          info = (\<lambda>t. (plain_run t)\<lparr>fsize := Some Pt12, fname := Some font_name\<rparr>)
      in s1\<lparr>body := body s1 @
           [Table 2 [[[info (opt_str (d_label (bdata b)))], [info (opt_str (d_type (bdata b)))]]],
            Table 1 [[[code_run (btext b)]]]]\<rparr>)"

text \<open>
  \<^verbatim>\<open>_add_video\<close>: without a source address only the paragraph is added; otherwise the
  thumbnail the provider gives, if any, and a caption with the label and the address.
\<close>

definition add_video :: "env \<Rightarrow> exporter \<Rightarrow> block \<Rightarrow> exporter" where
  "add_video ev s b =
     (let s1 = add_paragraph s ''Normal'' in
      case d_src (bdata b) of
        None \<Rightarrow> s1
      | Some url \<Rightarrow>
          (let s2 = (case video_thumb ev url of
                       None \<Rightarrow> s1
                     | Some big \<Rightarrow> set_picture ev s1 big [] 0 True True True);
               s3 = add_paragraph s2 ''Caption'';
               s4 = snd (add_run s3 ((plain_run (opt_str (d_label (bdata b))))\<lparr>bold := True\<rparr>));
               s5 = snd (add_run s4 (plain_run [CHR 0x0A]))
           in snd (add_run s5 ((plain_run url)\<lparr>bold := True\<rparr>))))"

text \<open>
  \<^verbatim>\<open>_add_blockquote\<close>: a table of one row and two cells, the text in the second, the icon
  of the variant in the first. When the icon cannot be loaded the handler ends there.
\<close>

definition quote_style :: "string option \<Rightarrow> string" where
  "quote_style st =
     (if st = Some ''warning'' then ''warning''
      else if st = Some ''question'' then ''question''
      else ''default'')"

definition add_blockquote :: "env \<Rightarrow> exporter \<Rightarrow> block \<Rightarrow> exporter" where
  "add_blockquote ev s b =
     (let s1 = reset_non_general (s\<lparr>depth_level := depth_level s + bdepth b\<rparr>);
          s2 = add_paragraph s1 ''Normal'';
          t = length (body s2);
          s3 = s2\<lparr>body := body s2 @ [new_table 1 2]\<rparr>;
          s4 = fst (add_text ev s3 b (Some (InCell t 0 1)))
      in if quote_icon ev (quote_style (d_style (bdata b)))
         then s4\<lparr>body := append_runs (body s4) (InCell t 0 0) [(plain_run [])\<lparr>pictures := [(320040, 320040)]\<rparr>],
                 depth_level := depth_level s4 - bdepth b\<rparr>
         else s4\<lparr>body := append_runs (body s4) (InCell t 0 0) [plain_run []],
                 captured := captured s4 @ [ExternalError]\<rparr>)"

section \<open>The dispatcher and the driver\<close>

text \<open>
  The body of the loop over the blocks of an article: the chain of tests on the type, in the
  order of the source, then \<^verbatim>\<open>self.__depth_level = 1\<close>. An exception that leaves a handler
  is caught here, and the depth level is then left as it is.
\<close>

definition handle :: "env \<Rightarrow> exporter \<Rightarrow> block \<Rightarrow> exn option \<times> exporter" where
  "handle ev s b =
     (if btype b = ''unstyled'' \<and> list_ex (block_entity s) (entityRanges b) then (None, add_block_link s b)
      else if btype b = ''unstyled'' then
        (let s1 = add_paragraph (reset_non_general s) ''Normal'';
             s2 = s1\<lparr>depth_level := depth_level s1 + bdepth b\<rparr>;
             s3 = fst (add_text ev s2 b None)
         in (None, s3\<lparr>depth_level := depth_level s3 - bdepth b\<rparr>))
      else if btype b = ''figure'' then (None, add_figure ev s b)
      else if btype b = ''mdtable'' then add_mdtable s b
      else if btype b \<in> {''header-two'', ''header-three''} then add_headers s b
      else if btype b \<in> {''ordered-list-item'', ''unordered-list-item''} then (None, fst (add_list_item ev s b))
      else if btype b = ''dictionary'' then (None, add_dict ev s b)
      else if btype b = ''cell'' then (None, add_table_cell ev s b)
      else if btype b = ''blockquote'' then (None, add_blockquote ev s b)
      else if btype b = ''header-step'' then (None, fst (add_header_step ev s b))
      else if btype b = ''code-block'' then (None, add_block_code s b)
      else if btype b = ''video'' then (None, add_video ev s b)
      else if btype b = ''gist-block'' then (None, add_gist s b)
      else (None, fst (add_text ev s b None)))"

definition dispatch :: "env \<Rightarrow> exporter \<Rightarrow> block \<Rightarrow> exporter" where
  "dispatch ev s b =
     (case handle ev s b of
        (None, s') \<Rightarrow> s'\<lparr>depth_level := 1\<rparr>
      | (Some e, s') \<Rightarrow> s'\<lparr>captured := captured s' @ [e]\<rparr>)"

text \<open>
  The pre-pass over the cells of a legacy article (\<^verbatim>\<open>doc_version <= 2\<close>), the loop on
  \<^verbatim>\<open>index_cell\<close>. For a cell the depths of the three blocks from the position of its key
  are read; reading past the end gives the triple \<open>[1, 1, 1]\<close>. When the cell has depth 1
  and the third depth is 2, the cell and the two blocks after it get depth 3 and one more
  position is skipped. A key that is not in the list, or a write past the end, raises, which
  ends the pre-pass with the writes done so far.
\<close>

definition peek_depths :: "string list \<Rightarrow> block list \<Rightarrow> nat \<Rightarrow> int list option" where
  "peek_depths ks bs i =
     (case index_of ks (bkey (bs ! i)) of
        None \<Rightarrow> None
      | Some k \<Rightarrow>
          Some (if k + 2 < length bs
                then [bdepth (bs ! k), bdepth (bs ! (k + 1)), bdepth (bs ! (k + 2))]
                else [1, 1, 1]))"

definition set_depth3 :: "block list \<Rightarrow> nat \<Rightarrow> block list" where
  "set_depth3 bs i = bs[i := (bs ! i)\<lparr>bdepth := 3\<rparr>]"

function normalize_cells :: "nat \<Rightarrow> string list \<Rightarrow> block list \<Rightarrow> block list" where
  "normalize_cells index_cell ks bs =
     (if index_cell < length bs then
        (if btype (bs ! index_cell) = ''cell'' then
           (case peek_depths ks bs index_cell of
              None \<Rightarrow> bs
            | Some depths \<Rightarrow>
                if bdepth (bs ! index_cell) = 1 \<and> depths ! 2 = 2 then
                  (let bs1 = set_depth3 bs index_cell in
                   if index_cell + 1 < length bs then
                     (let bs2 = set_depth3 bs1 (index_cell + 1) in
                      if index_cell + 2 < length bs
                      then normalize_cells (index_cell + 2) ks (set_depth3 bs2 (index_cell + 2))
                      else bs2)
                   else bs1)
                else normalize_cells (index_cell + 1) ks bs)
         else normalize_cells (index_cell + 1) ks bs)
      else bs)"
  by pat_completeness auto
termination
  by (relation "measure (\<lambda>(i, ks, bs). length bs - i)") (auto simp: set_depth3_def)

declare normalize_cells.simps [simp del]

text \<open>The shelf handed to the exporter. The blocks of an article are those left after
  every snippet block has been replaced by the blocks it refers to.\<close>

record article =
  a_entity_map :: "(string \<times> entity) list"
  a_blocks :: "block list"
  a_doc_version :: int
  a_icon :: "string option"
  a_name :: "string option"
  a_description :: "string option"

record book =
  book_name :: string
  articles :: "article list"

record shelf =
  shelf_name :: string
  books :: "book list"

definition no_data :: bdata where
  "no_data = \<lparr>d_table_cols = None, d_src = None, d_label = None, d_type = None, d_align = None,
     d_depth = None, d_style = None\<rparr>"

definition terminal_block :: block where
  "terminal_block = \<lparr>btype = ''unstyled'', bkey = [], btext = [], bdepth = 0, entityRanges = [],
     inlineStyleRanges = [], bdata = no_data\<rparr>"

definition set_article :: "env \<Rightarrow> exporter \<Rightarrow> article \<Rightarrow> exporter" where
  "set_article ev s a =
     (let s1 = add_paragraph s ''Normal'';
          s2 = (case a_icon a of None \<Rightarrow> s1 | Some url \<Rightarrow> set_picture ev s1 url [] 0 True True False);
          s3 = snd (add_run (add_paragraph s2 ''Normal'') (plain_run [CHR 0x0A]));
          s4 = snd (add_run s3 ((plain_run (opt_str (a_name a)))\<lparr>fsize := Some 228600,
                 fname := Some font_name, fcolor := Some font_color_rgb, bold := True\<rparr>));
          s5 = snd (add_run (add_paragraph s4 ''Normal'') ((plain_run (opt_str (a_description a)))\<lparr>
                 fsize := Some Pt12, fname := Some font_name, fcolor := Some font_color_rgb, bold := True\<rparr>))
      in add_paragraph s5 ''Normal'')"

text \<open>One article: the body of the loop over \<^verbatim>\<open>articles\<close>.\<close>

definition prepare_article :: "env \<Rightarrow> exporter \<Rightarrow> article \<Rightarrow> exporter" where
  "prepare_article ev s a =
     (let s1 = set_article ev
                 (s\<lparr>entity_map := a_entity_map a, article_blocks := a_blocks a,
                    keys := map bkey (a_blocks a), doc_version := a_doc_version a\<rparr>) a;
          s2 = (if doc_version s1 \<le> 2
                then s1\<lparr>article_blocks := normalize_cells 0 (keys s1) (article_blocks s1)\<rparr>
                else s1)
      in s2\<lparr>article_blocks := article_blocks s2 @ [terminal_block]\<rparr>)"

definition render_article :: "env \<Rightarrow> exporter \<Rightarrow> article \<Rightarrow> exporter" where
  "render_article ev s a = (let s1 = prepare_article ev s a in foldl (dispatch ev) s1 (article_blocks s1))"

text \<open>
  One book: the title goes into the current paragraph, the counters and cursors are set
  back, then the articles are rendered in turn.
\<close>

definition begin_book :: "exporter \<Rightarrow> book \<Rightarrow> exporter" where
  "begin_book s bk =
     (let s1 = capture (add_run s ((plain_run (book_name bk))\<lparr>fname := Some ''Inter'',
                  fsize := Some 304800, fcolor := Some font_color_rgb, bold := True\<rparr>))
      in s1\<lparr>depth_level := 1, step_header_num := 0, step_list_num := 0, cells := 0, rows := 0,
            dict_tbl := None\<rparr>)"

definition export_book :: "env \<Rightarrow> exporter \<Rightarrow> book \<Rightarrow> exporter" where
  "export_book ev s bk = foldl (render_article ev) (begin_book s bk) (articles bk)"

text \<open>
  \<^verbatim>\<open>export\<close> for an exporter built without a template, so that \<^verbatim>\<open>__merge__\<close> does nothing:
  the title page, then every book followed by a page break in the current paragraph.
\<close>

fun export_books :: "env \<Rightarrow> exporter \<Rightarrow> book list \<Rightarrow> exporter" where
  "export_books ev s [] = s"
| "export_books ev s (bk # bks) =
     (case add_run (export_book ev s bk) ((plain_run [])\<lparr>page_break := True\<rparr>) of
        (Some e, s1) \<Rightarrow> s1\<lparr>captured := captured s1 @ [e]\<rparr>
      | (None, s1) \<Rightarrow> export_books ev s1 bks)"

definition init_exporter :: exporter where
  "init_exporter = \<lparr>body = [], the_paragraph = None, depth_level = 1, table = None,
     table_col_index = 0, cols_num = 0, cells = 0, rows = 0, dict_tbl = None, cells_d = 0,
     rows_d = 0, step_header_num = 0, step_list_num = 0, entity_map = [], article_blocks = [],
     keys = [], doc_version = 0, captured = []\<rparr>"

definition add_title_page :: "env \<Rightarrow> exporter \<Rightarrow> string \<Rightarrow> exporter" where
  "add_title_page ev s name =
     (let s1 = snd (add_run (add_paragraph s ''Normal'') ((plain_run name)\<lparr>fname := Some ''Inter'',
                  fsize := Some 355600, fcolor := Some (52, 171, 118), bold := True\<rparr>));
          s2 = add_paragraph s1 ''Normal''
      in case float_picture ev of
           None \<Rightarrow> s2\<lparr>captured := captured s2 @ [ExternalError]\<rparr>
         | Some r \<Rightarrow> snd (add_run s2 r))"

definition export :: "env \<Rightarrow> shelf \<Rightarrow> exporter" where
  "export ev sh = export_books ev (add_title_page ev init_exporter (shelf_name sh)) (books sh)"

section \<open>Merging the styles of a template\<close>

text \<open>
  \<^verbatim>\<open>DocxMergeStyles\<close>. A template paragraph has a style name and the fonts of its runs; the
  produced document has the style names of its paragraphs and, for each style, the font of
  the style, which the paragraphs of that style share. Reading an attribute of the sampled
  font and writing it to the style's font are operations of the document library:
  \<open>cp based f attr\<close> is the font \<open>f\<close> after the copy of \<open>attr\<close>, or None when the
  read or the write raises.
\<close>

record 'f template_par =
  tp_style :: string
  tp_fonts :: "'f list"

record 'f produced =
  par_styles :: "string list"
  style_fonts :: "(string \<times> 'f) list"

definition copy_attrs :: "string list" where
  "copy_attrs = [''italic'', ''math'', ''no_proof'', ''web_hidden'', ''strike'', ''subscript'',
     ''rtl'', ''size'', ''color.rgb'', ''shadow'', ''highlight_color'', ''hidden'', ''cs_bold'',
     ''name'']"

text \<open>The first loop: for every run of every template paragraph the font is stored under
  the paragraph's style name, so the last run of a style name stays.\<close>

fun sample_runs :: "(string \<times> 'f) list \<Rightarrow> string \<Rightarrow> 'f list \<Rightarrow> (string \<times> 'f) list" where
  "sample_runs d st [] = d"
| "sample_runs d st (f # fs) = sample_runs (dict_set d st f) st fs"

fun based_fonts :: "(string \<times> 'f) list \<Rightarrow> 'f template_par list \<Rightarrow> (string \<times> 'f) list" where
  "based_fonts d [] = d"
| "based_fonts d (p # ps) = based_fonts (sample_runs d (tp_style p) (tp_fonts p)) ps"

text \<open>The loop over the attributes, and the loop over the paragraphs of the produced
  document. Nothing inside the loops catches an exception.\<close>

fun copy_all :: "('f \<Rightarrow> 'f \<Rightarrow> string \<Rightarrow> 'f option) \<Rightarrow> 'f \<Rightarrow> string list \<Rightarrow> 'f \<Rightarrow> exn option \<times> 'f" where
  "copy_all cp based [] f = (None, f)"
| "copy_all cp based (a # as) f =
     (case cp based f a of
        None \<Rightarrow> (Some AttributeError, f)
      | Some f' \<Rightarrow> copy_all cp based as f')"

fun merge_paragraphs :: "('f \<Rightarrow> 'f \<Rightarrow> string \<Rightarrow> 'f option) \<Rightarrow> (string \<times> 'f) list \<Rightarrow> string list \<Rightarrow>
    string list \<Rightarrow> (string \<times> 'f) list \<Rightarrow> exn option \<times> (string \<times> 'f) list" where
  "merge_paragraphs cp bf attrs [] fonts = (None, fonts)"
| "merge_paragraphs cp bf attrs (st # sts) fonts =
     (case map_of bf st of
        None \<Rightarrow> merge_paragraphs cp bf attrs sts fonts
      | Some based_style \<Rightarrow>
          (case map_of fonts st of
             None \<Rightarrow> (Some AttributeError, fonts)
           | Some f \<Rightarrow>
               (case copy_all cp based_style attrs f of
                  (Some e, f') \<Rightarrow> (Some e, dict_set fonts st f')
                | (None, f') \<Rightarrow> merge_paragraphs cp bf attrs sts (dict_set fonts st f'))))"

text \<open>
  \<^verbatim>\<open>__merge\<close> and \<^verbatim>\<open>merge\<close>: the document with the merged fonts, or None after
  \<^verbatim>\<open>raven.captureException()\<close> in the handler that encloses both loops.
  \<^verbatim>\<open>__merge__\<close> of the exporter stores that result as its document when a template is given.
\<close>

definition merge :: "('f \<Rightarrow> 'f \<Rightarrow> string \<Rightarrow> 'f option) \<Rightarrow> 'f produced \<Rightarrow> 'f template_par list \<Rightarrow> 'f produced option" where
  "merge cp input_doc based_doc =
     (case merge_paragraphs cp (based_fonts [] based_doc) copy_attrs (par_styles input_doc) (style_fonts input_doc) of
        (None, fonts) \<Rightarrow> Some (input_doc\<lparr>style_fonts := fonts\<rparr>)
      | (Some e, fonts) \<Rightarrow> None)"

definition exporter_merge :: "('f \<Rightarrow> 'f \<Rightarrow> string \<Rightarrow> 'f option) \<Rightarrow> 'f produced option \<Rightarrow> 'f template_par list option
    \<Rightarrow> 'f produced option" where
  "exporter_merge cp document based_template =
     (case based_template of
        None \<Rightarrow> document
      | Some t \<Rightarrow> (case document of None \<Rightarrow> None | Some d \<Rightarrow> merge cp d t))"

text \<open>
  The merge as the specification words it, for comparison: a failing copy is skipped and the
  loops go on.
\<close>

fun copy_all_skipping :: "('f \<Rightarrow> 'f \<Rightarrow> string \<Rightarrow> 'f option) \<Rightarrow> 'f \<Rightarrow> string list \<Rightarrow> 'f \<Rightarrow> 'f" where
  "copy_all_skipping cp based [] f = f"
| "copy_all_skipping cp based (a # as) f =
     (case cp based f a of
        None \<Rightarrow> copy_all_skipping cp based as f
      | Some f' \<Rightarrow> copy_all_skipping cp based as f')"

fun merge_skipping :: "('f \<Rightarrow> 'f \<Rightarrow> string \<Rightarrow> 'f option) \<Rightarrow> (string \<times> 'f) list \<Rightarrow> string list \<Rightarrow>
    string list \<Rightarrow> (string \<times> 'f) list \<Rightarrow> (string \<times> 'f) list" where
  "merge_skipping cp bf attrs [] fonts = fonts"
| "merge_skipping cp bf attrs (st # sts) fonts =
     (case (map_of bf st, map_of fonts st) of
        (Some based_style, Some f) \<Rightarrow>
          merge_skipping cp bf attrs sts (dict_set fonts st (copy_all_skipping cp based_style attrs f))
      | _ \<Rightarrow> merge_skipping cp bf attrs sts fonts)"

section \<open>Observations and concrete inputs\<close>

text \<open>The style of the current paragraph, by the name it has in the template, and the
  texts of the cells of a table.\<close>

definition current_style :: "exporter \<Rightarrow> string option" where
  "current_style s = map_option (style_name (body s)) (the_paragraph s)"

definition cell_texts :: "element \<Rightarrow> string list list" where
  "cell_texts e = map (map cell_text) (table_rows e)"

fun is_table :: "element \<Rightarrow> bool" where
  "is_table (Table c rws) = True"
| "is_table (Paragraph st rs) = False"

definition tables_of :: "exporter \<Rightarrow> (nat \<times> string list list) list" where
  "tables_of s = map (\<lambda>e. (table_cols e, cell_texts e)) (filter is_table (body s))"

fun paragraph_runs :: "element \<Rightarrow> run list" where
  "paragraph_runs (Paragraph st rs) = rs"
| "paragraph_runs (Table c rws) = []"

text \<open>The styles of the elements that a handler has appended to the body: \<open>s\<close> is the
  exporter before the handler, \<open>r\<close> the exporter after it.\<close>

fun style_of :: "element \<Rightarrow> string option" where
  "style_of (Paragraph st rs) = Some st"
| "style_of (Table c rws) = None"

definition new_styles :: "exporter \<Rightarrow> exporter \<Rightarrow> string option list" where
  "new_styles s r = map style_of (drop (length (body s)) (body r))"

text \<open>The elements of the body, each with its style and the text of its runs.\<close>

definition styled_texts :: "exporter \<Rightarrow> (string option \<times> string) list" where
  "styled_texts s = map (\<lambda>e. (style_of e, cell_text (paragraph_runs e))) (body s)"

text \<open>
  Collaborators for the examples: the address answers with bytes that the border
  composition accepts and that the document library does not recognise as an image; nothing
  else is available.
\<close>

definition ex_env :: env where
  "ex_env = \<lparr>img_style = (\<lambda>e r. None), b64_image = (\<lambda>c. None),
     http_get = (\<lambda>u. Some (Some ''image/webp'', ''RIFF'')), svg2png = None,
     with_border = (\<lambda>c. Some c), add_picture = (\<lambda>st. Inl UnrecognizedImageError),
     quote_icon = (\<lambda>st. False), scaled_height = (\<lambda>w h. Some h), float_picture = None,
     video_thumb = (\<lambda>u. None)\<rparr>"

definition ex_block :: "string \<Rightarrow> string \<Rightarrow> string \<Rightarrow> int \<Rightarrow> block" where
  "ex_block ty k t d = \<lparr>btype = ty, bkey = k, btext = t, bdepth = d, entityRanges = [],
     inlineStyleRanges = [], bdata = no_data\<rparr>"

definition ex_article :: "int \<Rightarrow> block list \<Rightarrow> article" where
  "ex_article v bs = \<lparr>a_entity_map = [], a_blocks = bs, a_doc_version = v, a_icon = None,
     a_name = None, a_description = None\<rparr>"

definition ex_shelf :: "article list \<Rightarrow> shelf" where
  "ex_shelf as = \<lparr>shelf_name = ''S'', books = [\<lparr>book_name = ''B'', articles = as\<rparr>]\<rparr>"

text \<open>A cell of a version 3 article whose data carries a table of five columns, and a
  legacy article whose only block is a cell of depth 0.\<close>

definition v3_state :: exporter where
  "v3_state = init_exporter\<lparr>doc_version := 3\<rparr>"

definition v3_cell :: block where
  "v3_cell = (ex_block ''cell'' ''k1'' ''A'' 0)\<lparr>bdata := no_data\<lparr>d_table_cols := Some 5\<rparr>\<rparr>"

definition legacy_state :: exporter where
  "legacy_state = init_exporter\<lparr>doc_version := 2, keys := [''k1''],
     article_blocks := [ex_block ''cell'' ''k1'' ''A'' 0, terminal_block]\<rparr>"

text \<open>Two markdown table texts: one that starts with the first pipe, and the same text
  after a line break.\<close>

definition md_bare :: string where
  "md_bare = ''|h1|h2|'' @ [CHR 0x0A] @ ''|--|--|'' @ [CHR 0x0A] @ ''|a|b|'' @ [CHR 0x0A]"

definition md_framed :: string where
  "md_framed = CHR 0x0A # md_bare"

text \<open>The number of header-step blocks of a list, the run of one character of a
  header-step prefix, and the texts of the paragraphs that have one.\<close>

definition header_steps :: "block list \<Rightarrow> nat" where
  "header_steps bs = length (filter (\<lambda>b. btype b = ''header-step'') bs)"

definition step_run :: "char \<Rightarrow> run" where
  "step_run c = (base_run c)\<lparr>bold := True, fsize := Some 133350\<rparr>"

definition paragraph_texts :: "exporter \<Rightarrow> string list" where
  "paragraph_texts s = filter (\<lambda>t. t \<noteq> []) (map (\<lambda>e. cell_text (paragraph_runs e)) (body s))"

text \<open>A book of two articles with one header-step block each.\<close>

definition two_step_articles :: shelf where
  "two_step_articles = ex_shelf [ex_article 2 [ex_block ''header-step'' ''k1'' ''A'' 0],
     ex_article 2 [ex_block ''header-step'' ''k1'' ''B'' 0]]"

text \<open>A legacy article in which a table of one cell, a paragraph and two more cells of
  the same depth follow each other; the exporter as it stands before the third block of that
  article; and an article of three cells.\<close>

definition cells_after_table :: shelf where
  "cells_after_table = ex_shelf [ex_article 2 [ex_block ''cell'' ''k1'' ''A'' 0,
     ex_block ''unstyled'' ''k2'' ''x'' 0, ex_block ''cell'' ''k3'' ''B'' 0,
     ex_block ''cell'' ''k4'' ''C'' 0]]"

definition second_table_state :: exporter where
  "second_table_state = init_exporter\<lparr>doc_version := 2, keys := [''k1'', ''k2'', ''k3''],
     article_blocks := [ex_block ''cell'' ''k1'' ''A'' 0, ex_block ''unstyled'' ''k2'' ''x'' 0,
       ex_block ''cell'' ''k3'' ''B'' 0, terminal_block],
     cells := 1\<rparr>"

definition three_cells :: shelf where
  "three_cells = ex_shelf [ex_article 2 [ex_block ''cell'' ''k1'' ''A'' 0,
     ex_block ''cell'' ''k2'' ''B'' 0, ex_block ''cell'' ''k3'' ''C'' 0]]"

text \<open>A legacy article with a figure whose address answers with bytes that are not a
  recognised image, followed by a paragraph; and the exporter with one paragraph.\<close>

definition figure_block :: block where
  "figure_block = (ex_block ''figure'' ''k1'' [] 0)\<lparr>bdata :=
     no_data\<lparr>d_src := Some ''http://h/p.webp'', d_label := Some ''cap''\<rparr>\<rparr>"

definition figure_then_text :: shelf where
  "figure_then_text = ex_shelf [ex_article 2 [figure_block, ex_block ''unstyled'' ''k2'' ''after'' 0]]"

definition figure_state :: exporter where
  "figure_state = add_paragraph init_exporter ''Normal''"

text \<open>
  The test of the pre-pass at position \<open>i\<close>, as the loop evaluates it, and the pattern
  \<open>[1, ?, 2]\<close> by positions: a cell of depth 1 whose second successor has depth 2.
\<close>

definition detected :: "string list \<Rightarrow> block list \<Rightarrow> nat \<Rightarrow> bool" where
  "detected ks bs i = (btype (bs ! i) = ''cell'' \<and> bdepth (bs ! i) = 1 \<and>
      (case peek_depths ks bs i of None \<Rightarrow> False | Some ds \<Rightarrow> ds ! 2 = 2))"

definition exhibits :: "block list \<Rightarrow> nat \<Rightarrow> bool" where
  "exhibits bs i = (btype (bs ! i) = ''cell'' \<and> bdepth (bs ! i) = 1 \<and> i + 2 < length bs \<and>
      bdepth (bs ! (i + 2)) = 2)"

text \<open>Three cells with the depths 1, 1, 2, and the same cells with depth 3; and four
  blocks with the depths 0, 0, 2, 1, the last a cell that has the key of the first.\<close>

definition cells_112 :: "block list" where
  "cells_112 = [ex_block ''cell'' ''k1'' ''A'' 1, ex_block ''cell'' ''k2'' ''B'' 1,
     ex_block ''cell'' ''k3'' ''C'' 2]"

definition cells_333 :: "block list" where
  "cells_333 = [ex_block ''cell'' ''k1'' ''A'' 3, ex_block ''cell'' ''k2'' ''B'' 3,
     ex_block ''cell'' ''k3'' ''C'' 3]"

definition repeated_key :: "block list" where
  "repeated_key = [ex_block ''unstyled'' ''k1'' ''A'' 0, ex_block ''unstyled'' ''k2'' ''B'' 0,
     ex_block ''unstyled'' ''k3'' ''C'' 2, ex_block ''cell'' ''k1'' ''D'' 1]"

text \<open>
  Fonts for the examples: a font is the list of its attributes and their values. \<open>ok_cp\<close>
  copies every attribute; \<open>ex_cp\<close> raises for the attribute \<^verbatim>\<open>math\<close>. The template has
  one paragraph of style Normal with one run; the produced document has one paragraph of
  style Normal.
\<close>

definition ok_cp :: "(string \<times> string) list \<Rightarrow> (string \<times> string) list \<Rightarrow> string \<Rightarrow> (string \<times> string) list option" where
  "ok_cp based f attr = Some (dict_set f attr (case map_of based attr of None \<Rightarrow> ''None'' | Some v \<Rightarrow> v))"

definition ex_cp :: "(string \<times> string) list \<Rightarrow> (string \<times> string) list \<Rightarrow> string \<Rightarrow> (string \<times> string) list option" where
  "ex_cp based f attr = (if attr = ''math'' then None else ok_cp based f attr)"

definition ex_font :: "(string \<times> string) list" where
  "ex_font = [(''italic'', ''True''), (''name'', ''Arial'')]"

definition ex_template :: "(string \<times> string) list template_par list" where
  "ex_template = [\<lparr>tp_style = ''Normal'', tp_fonts = [ex_font]\<rparr>]"

definition ex_produced :: "(string \<times> string) list produced" where
  "ex_produced = \<lparr>par_styles = [''Normal''], style_fonts = [(''Normal'', [(''name'', ''Inter'')])]\<rparr>"

text \<open>
  The ranges that one run of \<^verbatim>\<open>add_text\<close> appends to the ranges of a block: one for each
  entity range whose entity has type LINK and an address or type IMG, and the header-step
  range of a header-step block.
\<close>

fun entity_styles :: "(string \<times> entity) list \<Rightarrow> erange list \<Rightarrow> srange list" where
  "entity_styles em [] = []"
| "entity_styles em (e # es) =
     (case map_of em (ekey e) of
        None \<Rightarrow> []
      | Some ent \<Rightarrow>
          if etype ent = Some ''LINK'' then
            (case ehref ent of None \<Rightarrow> []
             | Some h \<Rightarrow> [\<lparr>style = Link h, offset = eoffset e, len = elen e\<rparr>])
          else if etype ent = Some ''IMG'' then [\<lparr>style = Img ent, offset = eoffset e, len = elen e\<rparr>]
          else []) @ entity_styles em es"

definition step_range :: "block \<Rightarrow> srange list" where
  "step_range b = (if btype b = ''header-step''
     then [\<lparr>style = Tok ''header-step'', offset = 0, len = int (length (btext b))\<rparr>] else [])"

text \<open>
  An entity range passes the first loop of \<^verbatim>\<open>add_text\<close> unless its entity has the type LINK
  and no \<^verbatim>\<open>data.href\<close>. The style loop, read by character: \<open>char_slot\<close> is the run of
  character \<open>i\<close> after the styles of the ranges that cover \<open>i\<close> have been set on it, one
  after the other in the order of the list, and \<open>char_runs\<close> are these runs for the
  characters of a text.
\<close>

definition link_ok :: "(string \<times> entity) list \<Rightarrow> erange \<Rightarrow> bool" where
  "link_ok em e = (case map_of em (ekey e) of
      None \<Rightarrow> True
    | Some ent \<Rightarrow> \<not> (etype ent = Some ''LINK'' \<and> ehref ent = None))"

definition covers :: "srange \<Rightarrow> nat \<Rightarrow> bool" where
  "covers sr i = (offset sr \<le> int i \<and> int i < offset sr + len sr)"

definition char_slot :: "env \<Rightarrow> bool \<Rightarrow> string \<Rightarrow> srange list \<Rightarrow> nat \<Rightarrow> slot" where
  "char_slot ev hp text srs i =
     foldl (\<lambda>sl sr. if covers sr i then fst (set_styles ev hp (style sr) sl [text ! i]) else sl)
       \<lparr>srun = base_run (text ! i), alive = True\<rparr> srs"

definition char_runs :: "env \<Rightarrow> bool \<Rightarrow> string \<Rightarrow> srange list \<Rightarrow> run list" where
  "char_runs ev hp text srs = map (\<lambda>i. srun (char_slot ev hp text srs i)) [0..<length text]"

text \<open>A header-step block with a bold range at offset 1 and a link over its first
  character, and an exporter with one paragraph whose entity map has the link.\<close>

definition link_block :: block where
  "link_block = (ex_block ''header-step'' ''k1'' ''ab'' 0)\<lparr>
     entityRanges := [\<lparr>ekey = ''0'', eoffset = 0, elen = 1\<rparr>],
     inlineStyleRanges := [\<lparr>style = Tok ''BOLD'', offset = 1, len = 1\<rparr>]\<rparr>"

definition link_state :: exporter where
  "link_state = figure_state\<lparr>entity_map :=
     [(''0'', \<lparr>etype = Some ''LINK'', estyle = None, ehref = Some ''http://h''\<rparr>)]\<rparr>"

text \<open>The same exporter with a link entity that has no address.\<close>

definition nohref_state :: exporter where
  "nohref_state = figure_state\<lparr>entity_map :=
     [(''0'', \<lparr>etype = Some ''LINK'', estyle = None, ehref = None\<rparr>)]\<rparr>"

text \<open>
  The column count of the specification, \<open>columnsForDepth\<close>; the runs that \<^verbatim>\<open>add_text\<close>
  appends for a block; and the state of a table while a run of cells is written: the handle
  points at the one table appended to the body, whose rows are full rows followed by a last
  row that holds the latest cells up to the cursor and empty cells after it.
\<close>

definition columns_for_depth :: "int \<Rightarrow> nat" where
  "columns_for_depth d = (if d = 0 then 2 else if d = 1 then 4 else if d = 2 then 2 else if d = 3 then 3 else 1)"

definition block_runs :: "env \<Rightarrow> exporter \<Rightarrow> block \<Rightarrow> run list" where
  "block_runs ev s b =
     (case fold_entities (entity_map s) (entityRanges b) (inlineStyleRanges b) of
        (Some e, rs) \<Rightarrow> []
      | (None, rs) \<Rightarrow>
          if btext b = [] then []
          else fst (text_runs ev (the_paragraph s \<noteq> None) (btext b)
                 (bubble_sort (if btype b = ''header-step''
                    then rs @ [\<lparr>style = Tok ''header-step'', offset = 0, len = int (length (btext b))\<rparr>]
                    else rs))))"

definition run_inv :: "env \<Rightarrow> exporter \<Rightarrow> nat \<Rightarrow> block list \<Rightarrow> exporter \<Rightarrow> bool" where
  "run_inv ev s0 c dn s =
     (entity_map s = entity_map s0 \<and> the_paragraph s = the_paragraph s0 \<and> keys s = keys s0 \<and>
      article_blocks s = article_blocks s0 \<and> doc_version s = doc_version s0 \<and>
      table s = Some (length (body s0)) \<and> 1 \<le> cells s \<and> cells s \<le> c \<and>
      (\<exists>full lr. body s = body s0 @ [Table c (full @ [lr])] \<and>
         (\<forall>r \<in> set full. length r = c) \<and> length lr = c \<and>
         map (block_runs ev s0) dn = concat full @ take (cells s) lr \<and>
         drop (cells s) lr = replicate (c - cells s) []))"

text \<open>Three cells of depth 0; a version 3 article with the same cells, the first with a
  table of three columns; a legacy article of four cells of depth 1 followed by a paragraph
  of depth 2; and a legacy article of three cells of depth 0 that have the same key.\<close>

definition abc_cells :: "block list" where
  "abc_cells = [ex_block ''cell'' ''k1'' ''A'' 0, ex_block ''cell'' ''k2'' ''B'' 0,
     ex_block ''cell'' ''k3'' ''C'' 0]"


definition three_cells_v3 :: shelf where
  "three_cells_v3 = ex_shelf [ex_article 3
     [(ex_block ''cell'' ''k1'' ''A'' 0)\<lparr>bdata := no_data\<lparr>d_table_cols := Some 3\<rparr>\<rparr>,
      ex_block ''cell'' ''k2'' ''B'' 0, ex_block ''cell'' ''k3'' ''C'' 0]]"

definition four_cells_then_depth2 :: shelf where
  "four_cells_then_depth2 = ex_shelf [ex_article 2
     [ex_block ''cell'' ''k1'' ''A'' 1, ex_block ''cell'' ''k2'' ''B'' 1,
      ex_block ''cell'' ''k3'' ''C'' 1, ex_block ''cell'' ''k4'' ''D'' 1,
      ex_block ''unstyled'' ''k5'' ''x'' 2]]"

definition cells_one_key :: shelf where
  "cells_one_key = ex_shelf [ex_article 2
     [ex_block ''cell'' ''k1'' ''A'' 0, ex_block ''cell'' ''k1'' ''B'' 0,
      ex_block ''cell'' ''k1'' ''C'' 0]]"

section \<open>Facts about the sink and the text runs\<close>

lemma length_append_runs [simp]: "length (append_runs els p rs) = length els"
  by (cases p) (auto split: element.splits)

lemma style_name_append_runs [simp]: "style_name (append_runs els p rs) q = style_name els q"
  by (cases p; cases q) (auto split: element.splits if_splits simp: nth_list_update)

lemma table_cols_append_runs [simp]: "table_cols (append_runs els p rs ! t) = table_cols (els ! t)"
  by (cases p) (auto split: element.splits if_splits simp: nth_list_update)

lemma length_rows_append_runs [simp]:
  "length (table_rows (append_runs els p rs ! t)) = length (table_rows (els ! t))"
  by (cases p) (auto split: element.splits if_splits simp: nth_list_update)

text \<open>\<^verbatim>\<open>add_text\<close> changes the body, by appending runs to one paragraph, and the list of
  reported exceptions; nothing else of the exporter.\<close>

lemma add_text_body:
  "body (fst (add_text ev s b par)) = body s \<or>
   (\<exists>p rs. body (fst (add_text ev s b par)) = append_runs (body s) p rs)"
  unfolding add_text_def
  by (auto split: prod.splits option.splits simp: Let_def)

lemma add_text_frame:
  "fst (add_text ev s b par) =
     s\<lparr>body := body (fst (add_text ev s b par)), captured := captured (fst (add_text ev s b par))\<rparr>"
  unfolding add_text_def
  by (auto split: prod.splits option.splits simp: Let_def)

lemma add_text_fields [simp]:
  "the_paragraph (fst (add_text ev s b par)) = the_paragraph s"
  "depth_level (fst (add_text ev s b par)) = depth_level s"
  "table (fst (add_text ev s b par)) = table s"
  "cells (fst (add_text ev s b par)) = cells s"
  "step_header_num (fst (add_text ev s b par)) = step_header_num s"
  "entity_map (fst (add_text ev s b par)) = entity_map s"
  "article_blocks (fst (add_text ev s b par)) = article_blocks s"
  "keys (fst (add_text ev s b par)) = keys s"
  "doc_version (fst (add_text ev s b par)) = doc_version s"
  "dict_tbl (fst (add_text ev s b par)) = dict_tbl s"
  "cells_d (fst (add_text ev s b par)) = cells_d s"
  by (subst add_text_frame, simp)+

lemma add_text_length [simp]: "length (body (fst (add_text ev s b par))) = length (body s)"
  using add_text_body[of ev s b par] by auto

lemma add_text_style_name [simp]:
  "style_name (body (fst (add_text ev s b par))) q = style_name (body s) q"
  using add_text_body[of ev s b par] by auto

lemma add_text_table_cols [simp]:
  "table_cols (body (fst (add_text ev s b par)) ! t) = table_cols (body s ! t)"
  using add_text_body[of ev s b par] by auto

lemma add_text_rows [simp]:
  "length (table_rows (body (fst (add_text ev s b par)) ! t)) = length (table_rows (body s ! t))"
  using add_text_body[of ev s b par] by auto

lemma current_style_add_text [simp]:
  "current_style (fst (add_text ev s b par)) = current_style s"
  by (cases "the_paragraph s") (simp_all add: current_style_def)

text \<open>The styles that the handlers ask for by a fixed name are styles of the document.\<close>

lemma fixed_styles_known [simp]:
  "ui_name ''Normal'' = ''Normal''" "''Normal'' \<in> set default_styles"
  "ui_name ''Caption'' = ''Caption''" "''Caption'' \<in> set default_styles"
  "ui_name ''heading 1'' = ''Heading 1''" "''Heading 1'' \<in> set default_styles"
  by (simp_all add: ui_name_def style_aliases_def default_styles_def)

lemma add_paragraph_known:
  "ui_name st \<in> set default_styles \<Longrightarrow>
   add_paragraph s st = s\<lparr>body := body s @ [Paragraph (ui_name st) []],
                          the_paragraph := Some (InBody (length (body s)))\<rparr>"
  by (simp add: add_paragraph_def)

lemma add_paragraph_unknown:
  "ui_name st \<notin> set default_styles \<Longrightarrow>
   add_paragraph s st = s\<lparr>body := body s @ [Paragraph ''Normal'' []],
                          captured := captured s @ [KeyError]\<rparr>"
  by (simp add: add_paragraph_def)

lemma add_paragraph_Normal [simp]:
  "add_paragraph s ''Normal'' = s\<lparr>body := body s @ [Paragraph ''Normal'' []],
                                  the_paragraph := Some (InBody (length (body s)))\<rparr>"
  by (simp add: add_paragraph_def)

lemma add_paragraph_length [simp]: "length (body (add_paragraph s st)) = Suc (length (body s))"
  by (simp add: add_paragraph_def)

lemma current_style_add_paragraph:
  "ui_name st \<in> set default_styles \<Longrightarrow> current_style (add_paragraph s st) = Some (ui_name st)"
  by (simp add: current_style_def add_paragraph_def)

text \<open>\<^verbatim>\<open>str(n)\<close> gives one digit exactly for \<open>0 \<le> n < 10\<close>, so that the list styles
  of the document are those of the levels 2 and 3 among the names \<^verbatim>\<open>List Number n\<close> and
  \<^verbatim>\<open>List Bullet n\<close>.\<close>

lemma digit_chars: "map digit_char [0..<10] = ''0123456789''"
  by code_simp

lemma str_nat_digit: "n < 10 \<Longrightarrow> str_nat n = [''0123456789'' ! n]"
proof -
  assume a: "n < 10"
  then have "digit_char n = map digit_char [0..<10] ! n" by simp
  then have "digit_char n = ''0123456789'' ! n" by (simp only: digit_chars)
  with a show ?thesis by (subst str_nat.simps) simp
qed

lemma str_nat_not_Nil: "str_nat n \<noteq> []"
  by (subst str_nat.simps) simp

lemma str_nat_long: "10 \<le> n \<Longrightarrow> 2 \<le> length (str_nat n)"
  using str_nat_not_Nil[of "n div 10"]
  by (subst str_nat.simps) (simp add: Suc_le_eq)

lemma digit_is:
  "m < 10 \<Longrightarrow> (''0123456789'' ! m = CHR ''2'') = (m = 2) \<and> (''0123456789'' ! m = CHR ''3'') = (m = 3)"
proof -
  assume "m < 10"
  then have "m = 0 \<or> m = 1 \<or> m = 2 \<or> m = 3 \<or> m = 4 \<or> m = 5 \<or> m = 6 \<or> m = 7 \<or> m = 8 \<or> m = 9"
    by arith
  then show ?thesis by auto
qed

lemma str_int_level: "(str_int n = ''2'') = (n = 2)" "(str_int n = ''3'') = (n = 3)" "str_int n \<noteq> []"
proof -
  have len: "length (str_int n) = 1 \<Longrightarrow> 0 \<le> n \<and> n < 10"
  proof -
    assume l: "length (str_int n) = 1"
    have "\<not> n < 0" using l str_nat_not_Nil[of "nat (- n)"] by (auto simp: str_int_def)
    moreover have "n < 10"
    proof (rule ccontr)
      assume "\<not> n < 10"
      then have "10 \<le> nat n" by arith
      from str_nat_long[OF this] l \<open>\<not> n < 0\<close> show False by (simp add: str_int_def)
    qed
    ultimately show ?thesis by simp
  qed
  have dig: "0 \<le> n \<Longrightarrow> n < 10 \<Longrightarrow> str_int n = [''0123456789'' ! nat n]"
    using str_nat_digit[of "nat n"] by (simp add: str_int_def)
  show "(str_int n = ''2'') = (n = 2)"
  proof
    assume a: "str_int n = ''2''"
    then have "length (str_int n) = 1" by simp
    from len[OF this] have r: "0 \<le> n" "n < 10" by auto
    then have m: "nat n < 10" by simp
    from dig[OF r] a have "''0123456789'' ! nat n = CHR ''2''" by simp
    with digit_is[OF m] have "nat n = 2" by simp
    with r show "n = 2" by simp
  next
    assume "n = 2" then show "str_int n = ''2''" using dig by simp
  qed
  show "(str_int n = ''3'') = (n = 3)"
  proof
    assume a: "str_int n = ''3''"
    then have "length (str_int n) = 1" by simp
    from len[OF this] have r: "0 \<le> n" "n < 10" by auto
    then have m: "nat n < 10" by simp
    from dig[OF r] a have "''0123456789'' ! nat n = CHR ''3''" by simp
    with digit_is[OF m] have "nat n = 3" by simp
    with r show "n = 3" by simp
  next
    assume "n = 3" then show "str_int n = ''3''" using dig by simp
  qed
  show "str_int n \<noteq> []" using str_nat_not_Nil by (simp add: str_int_def)
qed

lemma list_style_known:
  "(''List Number '' @ str_int n \<in> set default_styles) = (n = 2 \<or> n = 3)"
  "(''List Bullet '' @ str_int n \<in> set default_styles) = (n = 2 \<or> n = 3)"
  "ui_name (''List Number '' @ str_int n) = ''List Number '' @ str_int n"
  "ui_name (''List Bullet '' @ str_int n) = ''List Bullet '' @ str_int n"
  by (auto simp: ui_name_def style_aliases_def default_styles_def str_int_level)

text \<open>Writing runs changes no style, and \<^verbatim>\<open>add_text\<close> only adds to the reported
  exceptions.\<close>

lemma style_of_append_runs [simp]: "map style_of (append_runs els p rs) = map style_of els"
  by (cases p) (auto split: element.splits simp: map_update list_update_same_conv)

lemma style_of_add_text [simp]:
  "map style_of (body (fst (add_text ev s b par))) = map style_of (body s)"
  using add_text_body[of ev s b par] by auto

lemma style_of_add_run [simp]: "map style_of (body (snd (add_run s r))) = map style_of (body s)"
  by (cases "the_paragraph s") (simp_all add: add_run_def)

lemma add_text_captured: "\<exists>es. captured (fst (add_text ev s b par)) = captured s @ es"
  unfolding add_text_def
  by (auto split: prod.splits option.splits simp: Let_def)

lemma new_styles_eq: "new_styles s r = drop (length (body s)) (map style_of (body r))"
  by (simp add: new_styles_def drop_map)

section \<open>The style level of list items\<close>

lemma str_int_small: "str_int 2 = ''2''" "str_int 3 = ''3''" "str_int 4 = ''4''" "str_int 7 = ''7''"
  by code_simp+

lemma add_list_item_ordered:
  fixes ev :: env and s :: exporter and b :: block
  assumes o: "btype b = ''ordered-list-item''" and p: "the_paragraph s \<noteq> None"
  defines "n \<equiv> (if bdepth b + 2 \<le> 4 then bdepth b + 2 else 3)"
  defines "st \<equiv> ''List Number '' @ str_int n"
  defines "r \<equiv> fst (add_list_item ev s b)"
  shows "n = 2 \<or> n = 3 \<Longrightarrow>
           new_styles s r = (if current_style s = Some st then [] else [Some ''Normal'']) @ [Some st] \<and>
           current_style r = Some st \<and>
           the_paragraph r = Some (InBody (length (body s) + (if current_style s = Some st then 0 else 1)))"
    and "n \<noteq> 2 \<and> n \<noteq> 3 \<Longrightarrow>
           new_styles s r = (if current_style s = Some st then [] else [Some ''Normal'']) @ [Some ''Normal''] \<and>
           the_paragraph r = (if current_style s = Some st then the_paragraph s else Some (InBody (length (body s)))) \<and>
           KeyError \<in> set (captured r)"
proof -
  from p obtain q where q: "the_paragraph s = Some q" by auto
  let ?s1 = "if style_name (body s) q \<noteq> st
             then snd (add_run (add_paragraph s ''Normal'') (plain_run [CHR 0x0A])) else s"
  have r: "r = fst (add_text ev (add_paragraph ?s1 st) b None)"
    using o q by (simp add: r_def add_list_item_def list_level_def Let_def st_def n_def)
  have cs: "(current_style s = Some st) = (style_name (body s) q = st)"
    using q by (simp add: current_style_def)
  have b1: "map style_of (body ?s1) = map style_of (body s) @ (if current_style s = Some st then [] else [Some ''Normal''])"
    by (simp add: cs)
  have p1: "the_paragraph ?s1 = (if current_style s = Some st then the_paragraph s else Some (InBody (length (body s))))"
    by (simp add: cs add_run_def)
  {
    assume k: "n = 2 \<or> n = 3"
    then have kn: "ui_name st \<in> set default_styles" "ui_name st = st"
      by (simp_all only: st_def list_style_known)
    have a: "add_paragraph ?s1 st = ?s1\<lparr>body := body ?s1 @ [Paragraph st []],
                     the_paragraph := Some (InBody (length (body ?s1)))\<rparr>"
      using add_paragraph_known[OF kn(1), of ?s1] by (simp only: kn(2))
    have "map style_of (body r) = map style_of (body s) @ (if current_style s = Some st then [] else [Some ''Normal'']) @ [Some st]"
      by (simp only: r a style_of_add_text) (simp add: b1)
    then have ns: "new_styles s r = (if current_style s = Some st then [] else [Some ''Normal'']) @ [Some st]"
      by (simp add: new_styles_eq)
    have l1: "length (body ?s1) = length (body s) + (if current_style s = Some st then 0 else 1)"
      using arg_cong[OF b1, of length] by simp
    have pr: "the_paragraph r = Some (InBody (length (body s) + (if current_style s = Some st then 0 else 1)))"
      by (simp only: r a add_text_fields) (simp add: l1)
    have "current_style r = current_style (add_paragraph ?s1 st)" by (simp only: r current_style_add_text)
    also have "\<dots> = Some st" using current_style_add_paragraph[OF kn(1), of ?s1] by (simp only: kn(2))
    finally show "new_styles s r = (if current_style s = Some st then [] else [Some ''Normal'']) @ [Some st] \<and>
           current_style r = Some st \<and>
           the_paragraph r = Some (InBody (length (body s) + (if current_style s = Some st then 0 else 1)))"
      using ns pr by simp
  }
  {
    assume k: "n \<noteq> 2 \<and> n \<noteq> 3"
    then have kn: "ui_name st \<notin> set default_styles"
      by (simp only: st_def list_style_known) simp
    note a = add_paragraph_unknown[OF kn, of ?s1]
    have "map style_of (body r) = map style_of (body s) @ (if current_style s = Some st then [] else [Some ''Normal'']) @ [Some ''Normal'']"
      by (simp only: r a style_of_add_text) (simp add: b1)
    then have ns: "new_styles s r = (if current_style s = Some st then [] else [Some ''Normal'']) @ [Some ''Normal'']"
      by (simp add: new_styles_eq)
    have pr: "the_paragraph r = (if current_style s = Some st then the_paragraph s else Some (InBody (length (body s))))"
      by (simp only: r a add_text_fields) (simp add: p1)
    obtain es where "captured r = captured (add_paragraph ?s1 st) @ es"
      using add_text_captured[of ev "add_paragraph ?s1 st" b None] by (auto simp: r)
    then have "KeyError \<in> set (captured r)" by (simp add: a)
    with ns pr show "new_styles s r = (if current_style s = Some st then [] else [Some ''Normal'']) @ [Some ''Normal''] \<and>
           the_paragraph r = (if current_style s = Some st then the_paragraph s else Some (InBody (length (body s)))) \<and>
           KeyError \<in> set (captured r)" by simp
  }
qed

lemma add_list_item_unordered:
  fixes ev :: env and s :: exporter and b :: block
  assumes u: "btype b = ''unordered-list-item''"
  defines "n \<equiv> bdepth b + 2"
  defines "st \<equiv> ''List Bullet '' @ str_int n"
  defines "r \<equiv> fst (add_list_item ev s b)"
  shows "n = 2 \<or> n = 3 \<Longrightarrow> new_styles s r = [Some st] \<and> current_style r = Some st \<and>
           the_paragraph r = Some (InBody (length (body s)))"
    and "n \<noteq> 2 \<and> n \<noteq> 3 \<Longrightarrow>
           new_styles s r = [Some ''Normal''] \<and> the_paragraph r = the_paragraph s \<and>
           KeyError \<in> set (captured r)"
proof -
  have r: "r = fst (add_text ev (add_paragraph s st) b None)"
    using u by (simp add: r_def add_list_item_def list_level_def Let_def st_def n_def)
  {
    assume k: "n = 2 \<or> n = 3"
    then have kn: "ui_name st \<in> set default_styles" "ui_name st = st"
      by (simp_all only: st_def list_style_known)
    have a: "add_paragraph s st = s\<lparr>body := body s @ [Paragraph st []],
                     the_paragraph := Some (InBody (length (body s)))\<rparr>"
      using add_paragraph_known[OF kn(1), of s] by (simp only: kn(2))
    have "map style_of (body r) = map style_of (body s) @ [Some st]"
      by (simp only: r a style_of_add_text) simp
    then have ns: "new_styles s r = [Some st]" by (simp add: new_styles_eq)
    have pr: "the_paragraph r = Some (InBody (length (body s)))"
      by (simp only: r a add_text_fields) simp
    have "current_style r = current_style (add_paragraph s st)" by (simp only: r current_style_add_text)
    also have "\<dots> = Some st" using current_style_add_paragraph[OF kn(1), of s] by (simp only: kn(2))
    finally show "new_styles s r = [Some st] \<and> current_style r = Some st \<and>
           the_paragraph r = Some (InBody (length (body s)))" using ns pr by simp
  }
  {
    assume k: "n \<noteq> 2 \<and> n \<noteq> 3"
    then have kn: "ui_name st \<notin> set default_styles"
      by (simp only: st_def list_style_known) simp
    note a = add_paragraph_unknown[OF kn, of s]
    have "map style_of (body r) = map style_of (body s) @ [Some ''Normal'']"
      by (simp only: r a style_of_add_text) simp
    then have ns: "new_styles s r = [Some ''Normal'']" by (simp add: new_styles_eq)
    have pr: "the_paragraph r = the_paragraph s"
      by (simp only: r a add_text_fields) simp
    obtain es where "captured r = captured (add_paragraph s st) @ es"
      using add_text_captured[of ev "add_paragraph s st" b None] by (auto simp: r)
    then have "KeyError \<in> set (captured r)" by (simp add: a)
    with ns pr show "new_styles s r = [Some ''Normal''] \<and> the_paragraph r = the_paragraph s \<and>
           KeyError \<in> set (captured r)" by simp
  }
qed




section \<open>The columns of a table opened for a cell\<close>

lemma cell_open_legacy:
  assumes "doc_version s \<noteq> 3"
  shows "snd (cell_open s b) = s \<or> snd (cell_open s b) = s\<lparr>table := None\<rparr> \<or>
         snd (cell_open s b) =
           s\<lparr>table := Some (length (body s)),
             body := body s @ [new_table 1 (if bdepth b = 0 then 2 else if bdepth b = 1 then 4
                else if bdepth b = 2 then 2 else if bdepth b = 3 then 3 else 1)]\<rparr>"
  using assms
  by (simp add: cell_open_def Let_def table_for_depth_def open_table_def split: option.splits)

lemma table_cols_add_row [simp]: "table_cols (add_row e) = table_cols e"
  by (cases e) simp_all

lemma table_cols_update_add_row [simp]:
  "table_cols (xs[a := add_row (xs ! a)] ! t) = table_cols (xs ! t)"
  by (cases "a < length xs"; cases "a = t") (simp_all add: list_update_beyond)

lemma cell_write_body:
  "length (body (snd (cell_write ev s b))) = length (body s) \<and>
   table (snd (cell_write ev s b)) = table s \<and>
   table_cols (body (snd (cell_write ev s b)) ! t) = table_cols (body s ! t)"
  by (cases "table s") (auto simp: cell_write_def Let_def nth_list_update)

lemma captured_fields [simp]:
  "body (capture r) = body (snd r)" "table (capture r) = table (snd r)" "cells (capture r) = cells (snd r)"
  by (cases r; cases "fst r"; simp add: capture_def)+

lemma legacy_open_table:
  assumes "doc_version s \<noteq> 3" and "length (body s) < length (body (add_table_cell ev s b))"
  shows "table (add_table_cell ev s b) = Some (length (body s)) \<and>
         table_cols (body (add_table_cell ev s b) ! length (body s)) =
           (if bdepth b = 0 then 2 else if bdepth b = 1 then 4 else if bdepth b = 2 then 2
            else if bdepth b = 3 then 3 else 1)"
proof -
  obtain r s1 where o: "cell_open s b = (r, s1)" by (cases "cell_open s b")
  let ?c = "if bdepth b = 0 then 2 else if bdepth b = 1 then 4 else if bdepth b = 2 then 2
            else if bdepth b = 3 then 3 else (1::nat)"
  have len: "length (body (add_table_cell ev s b)) = length (body s1)"
    and tb: "table (add_table_cell ev s b) = table s1"
    and cols: "table_cols (body (add_table_cell ev s b) ! length (body s)) = table_cols (body s1 ! length (body s))"
    using o cell_write_body[of ev s1 b "length (body s)"]
    by (cases r; simp add: add_table_cell_def)+
  from cell_open_legacy[OF assms(1), of b] o
  consider "s1 = s" | "s1 = s\<lparr>table := None\<rparr>"
    | "s1 = s\<lparr>table := Some (length (body s)), body := body s @ [new_table 1 ?c]\<rparr>"
    by auto
  then show ?thesis
  proof cases
    case 1 with len assms(2) show ?thesis by simp
  next
    case 2 with len assms(2) show ?thesis by simp
  next
    case 3
    then show ?thesis using tb cols by (simp add: new_table_def)
  qed
qed

lemma v3_open_table:
  assumes "doc_version s = 3"
  shows "d_table_cols (bdata b) = Some c \<Longrightarrow>
           length (body (add_table_cell ev s b)) = Suc (length (body s)) \<and>
           table (add_table_cell ev s b) = Some (length (body s)) \<and>
           table_cols (body (add_table_cell ev s b) ! length (body s)) = c"
    and "d_table_cols (bdata b) = None \<Longrightarrow>
           length (body (add_table_cell ev s b)) = length (body s) \<and>
           table (add_table_cell ev s b) = table s"
proof -
  {
    assume c: "d_table_cols (bdata b) = Some c"
    let ?s1 = "(open_table s c)\<lparr>cells := 0\<rparr>"
    have o: "cell_open s b = (None, ?s1)" using assms c by (simp add: cell_open_def)
    have e: "add_table_cell ev s b = capture (cell_write ev ?s1 b)"
      by (simp add: add_table_cell_def o)
    from cell_write_body[of ev ?s1 b "length (body s)"]
    show "length (body (add_table_cell ev s b)) = Suc (length (body s)) \<and>
           table (add_table_cell ev s b) = Some (length (body s)) \<and>
           table_cols (body (add_table_cell ev s b) ! length (body s)) = c"
      by (simp add: e open_table_def new_table_def)
  }
  {
    assume c: "d_table_cols (bdata b) = None"
    have o: "cell_open s b = (None, s)" using assms c by (simp add: cell_open_def)
    have e: "add_table_cell ev s b = capture (cell_write ev s b)"
      by (simp add: add_table_cell_def o)
    from cell_write_body[of ev s b 0]
    show "length (body (add_table_cell ev s b)) = length (body s) \<and>
           table (add_table_cell ev s b) = table s"
      by (simp add: e)
  }
qed




section \<open>Reading a markdown table\<close>

text \<open>
  Claim C4, as the code has it. The reader drops the first and the last character of the
  text before it cuts the lines. For the text
  \<^verbatim>\<open>"\n|h1|h2|\n|--|--|\n|a|b|\n"\<close> the table has 2 columns, the header row
  \<open>[h1, h2]\<close> and the one data row \<open>[a, b]\<close>.
\<close>

theorem mdtable_framed:
  "read_markdown_table md_framed = [[(''h1'', ''a''), (''h2'', ''b'')]] \<and>
   fst (add_mdtable init_exporter (ex_block ''mdtable'' ''k'' md_framed 0)) = None \<and>
   tables_of (snd (add_mdtable init_exporter (ex_block ''mdtable'' ''k'' md_framed 0))) =
     [(2, [[''h1'', ''h2''], [''a'', ''b'']])]"
  by code_simp

text \<open>For the text \<^verbatim>\<open>"|h1|h2|\n|--|--|\n|a|b|\n"\<close> the first pipe is the character that is
  dropped: the header loses \<open>h1\<close>, and the table has one column.\<close>

theorem mdtable_bare_counterexample:
  "read_markdown_table md_bare = [[(''h2'', ''a'')]] \<and>
   tables_of (snd (add_mdtable init_exporter (ex_block ''mdtable'' ''k'' md_bare 0))) =
     [(1, [[''h2''], [''a'']])]"
  by code_simp

section \<open>What the handlers leave alone\<close>

lemma add_run_keeps [simp]:
  "cells (snd (add_run s r)) = cells s" "step_header_num (snd (add_run s r)) = step_header_num s"
  "the_paragraph (snd (add_run s r)) = the_paragraph s"
  by (cases "the_paragraph s"; simp add: add_run_def)+

lemma add_paragraph_keeps [simp]:
  "cells (add_paragraph s st) = cells s" "step_header_num (add_paragraph s st) = step_header_num s"
  by (simp_all add: add_paragraph_def)

lemma reset_non_general_keeps [simp]:
  "cells (reset_non_general s) = cells s" "step_header_num (reset_non_general s) = step_header_num s"
  by (simp_all add: reset_non_general_def)

lemma capture_keeps [simp]:
  "step_header_num (capture r) = step_header_num (snd r)"
  by (cases r; cases "fst r"; simp add: capture_def)

lemma place_picture_keeps [simp]:
  "cells (snd (place_picture ev s st l)) = cells s"
  "step_header_num (snd (place_picture ev s st l)) = step_header_num s"
  by (simp_all add: place_picture_def Let_def prod.case_eq_if split: sum.splits option.splits)

lemma set_picture_body_keeps [simp]:
  "cells (snd (set_picture_body ev s u l d r a b)) = cells s"
  "step_header_num (snd (set_picture_body ev s u l d r a b)) = step_header_num s"
  by (simp_all add: set_picture_body_def Let_def prod.case_eq_if split: sum.splits option.splits)

lemma set_picture_keeps [simp]:
  "cells (set_picture ev s u l d r a b) = cells s"
  "step_header_num (set_picture ev s u l d r a b) = step_header_num s"
  by (simp_all add: set_picture_def)

lemma add_figure_keeps [simp]:
  "cells (add_figure ev s b) = cells s" "step_header_num (add_figure ev s b) = step_header_num s"
  by (simp_all add: add_figure_def)

lemma add_block_link_keeps [simp]:
  "cells (add_block_link s b) = cells s" "step_header_num (add_block_link s b) = step_header_num s"
  by (simp_all add: add_block_link_def Let_def)

lemma add_gist_keeps [simp]:
  "cells (add_gist s b) = cells s" "step_header_num (add_gist s b) = step_header_num s"
  by (simp_all add: add_gist_def Let_def)

lemma add_block_code_keeps [simp]:
  "cells (add_block_code s b) = cells s" "step_header_num (add_block_code s b) = step_header_num s"
  by (simp_all add: add_block_code_def Let_def)

lemma add_video_keeps [simp]:
  "cells (add_video ev s b) = cells s" "step_header_num (add_video ev s b) = step_header_num s"
  by (simp_all add: add_video_def Let_def split: option.splits)

lemma add_blockquote_keeps [simp]:
  "cells (add_blockquote ev s b) = cells s" "step_header_num (add_blockquote ev s b) = step_header_num s"
  by (simp_all add: add_blockquote_def Let_def)

lemma add_headers_keeps [simp]:
  "cells (snd (add_headers s b)) = cells s" "step_header_num (snd (add_headers s b)) = step_header_num s"
  by (simp_all add: add_headers_def)

lemma add_mdtable_keeps [simp]:
  "cells (snd (add_mdtable s b)) = cells s" "step_header_num (snd (add_mdtable s b)) = step_header_num s"
  by (simp_all add: add_mdtable_def Let_def prod.case_eq_if split: list.splits)

lemma add_list_item_keeps [simp]:
  "cells (fst (add_list_item ev s b)) = cells s" "step_header_num (fst (add_list_item ev s b)) = step_header_num s"
  by (simp_all add: add_list_item_def Let_def split: option.splits)

lemma add_dict_keeps [simp]:
  "cells (add_dict ev s b) = cells s" "step_header_num (add_dict ev s b) = step_header_num s"
  by (simp_all add: add_dict_def Let_def split: option.splits)

lemma add_header_step_cells [simp]:
  "cells (fst (add_header_step ev s b)) = cells s"
  by (simp add: add_header_step_def Let_def)

lemma add_header_step_num [simp]:
  "step_header_num (fst (add_header_step ev s b)) = step_header_num s + 1"
  by (simp add: add_header_step_def Let_def)

lemma cell_open_num [simp]: "step_header_num (snd (cell_open s b)) = step_header_num s"
  by (simp add: cell_open_def Let_def table_for_depth_def open_table_def split: option.splits)

lemma cell_write_num [simp]: "step_header_num (snd (cell_write ev s b)) = step_header_num s"
  by (simp add: cell_write_def Let_def split: option.splits)

lemma add_table_cell_num [simp]: "step_header_num (add_table_cell ev s b) = step_header_num s"
  using cell_open_num[of s b] cell_write_num[of ev "snd (cell_open s b)" b]
  by (simp add: add_table_cell_def prod.case_eq_if split: option.splits)


lemma add_run_article [simp]:
  "article_blocks (snd (add_run s r)) = article_blocks s" "keys (snd (add_run s r)) = keys s"
  "doc_version (snd (add_run s r)) = doc_version s"
  by (cases "the_paragraph s"; simp add: add_run_def)+

lemma add_paragraph_article [simp]:
  "article_blocks (add_paragraph s st) = article_blocks s" "keys (add_paragraph s st) = keys s"
  "doc_version (add_paragraph s st) = doc_version s"
  by (simp_all add: add_paragraph_def)

lemma reset_non_general_article [simp]:
  "article_blocks (reset_non_general s) = article_blocks s" "keys (reset_non_general s) = keys s"
  "doc_version (reset_non_general s) = doc_version s"
  by (simp_all add: reset_non_general_def)

lemma capture_article [simp]:
  "article_blocks (capture r) = article_blocks (snd r)" "keys (capture r) = keys (snd r)"
  "doc_version (capture r) = doc_version (snd r)"
  by (cases r; cases "fst r"; simp add: capture_def)+

lemma place_picture_article [simp]:
  "article_blocks (snd (place_picture ev s st l)) = article_blocks s"
  "keys (snd (place_picture ev s st l)) = keys s"
  "doc_version (snd (place_picture ev s st l)) = doc_version s"
  by (simp_all add: place_picture_def Let_def prod.case_eq_if split: sum.splits option.splits)

lemma set_picture_body_article [simp]:
  "article_blocks (snd (set_picture_body ev s u l d r a b)) = article_blocks s"
  "keys (snd (set_picture_body ev s u l d r a b)) = keys s"
  "doc_version (snd (set_picture_body ev s u l d r a b)) = doc_version s"
  by (simp_all add: set_picture_body_def Let_def prod.case_eq_if split: sum.splits option.splits)

lemma set_picture_article [simp]:
  "article_blocks (set_picture ev s u l d r a b) = article_blocks s"
  "keys (set_picture ev s u l d r a b) = keys s"
  "doc_version (set_picture ev s u l d r a b) = doc_version s"
  by (simp_all add: set_picture_def)

section \<open>The dispatcher and the counters\<close>

lemma handle_num:
  "step_header_num (snd (handle ev s b)) = step_header_num s + (if btype b = ''header-step'' then 1 else 0)"
  by (simp add: handle_def Let_def)

lemma handle_cells:
  "btype b \<noteq> ''cell'' \<Longrightarrow> cells (snd (handle ev s b)) = cells s"
  by (simp add: handle_def Let_def)

lemma dispatch_num:
  "step_header_num (dispatch ev s b) = step_header_num s + (if btype b = ''header-step'' then 1 else 0)"
  using handle_num[of ev s b]
  by (simp add: dispatch_def prod.case_eq_if split: option.splits)

lemma dispatch_cells:
  "btype b \<noteq> ''cell'' \<Longrightarrow> cells (dispatch ev s b) = cells s"
  using handle_cells[of b ev s]
  by (simp add: dispatch_def prod.case_eq_if split: option.splits)

lemma foldl_dispatch_num:
  "step_header_num (foldl (dispatch ev) s bs) = step_header_num s + int (header_steps bs)"
  by (induction bs arbitrary: s) (simp_all add: header_steps_def dispatch_num)

lemma set_depth3_types [simp]: "map btype (set_depth3 bs i) = map btype bs"
  by (cases "i < length bs") (auto simp: set_depth3_def nth_list_update list_update_beyond intro!: nth_equalityI)

lemma set_depth3_length [simp]: "length (set_depth3 bs i) = length bs"
  by (simp add: set_depth3_def)

lemma normalize_cells_types: "map btype (normalize_cells i ks bs) = map btype bs"
proof (induction i ks bs rule: normalize_cells.induct)
  case (1 i ks bs)
  show ?case
  proof (cases "i < length bs")
    case False
    then show ?thesis by (subst normalize_cells.simps) simp
  next
    case lt: True
    show ?thesis
    proof (cases "btype (bs ! i) = ''cell''")
      case False
      with lt "1.IH"(3) show ?thesis by (subst normalize_cells.simps) simp
    next
      case c: True
      show ?thesis
      proof (cases "peek_depths ks bs i")
        case None
        with lt c show ?thesis by (subst normalize_cells.simps) simp
      next
        case (Some ds)
        show ?thesis
        proof (cases "bdepth (bs ! i) = 1 \<and> ds ! 2 = 2")
          case False
          with lt c Some "1.IH"(2) show ?thesis by (subst normalize_cells.simps) auto
        next
          case True
          with lt c Some "1.IH"(1) show ?thesis
            by (subst normalize_cells.simps) (auto simp: Let_def)
        qed
      qed
    qed
  qed
qed

lemma header_steps_types: "map btype bs = map btype cs \<Longrightarrow> header_steps bs = header_steps cs"
proof -
  assume a: "map btype bs = map btype cs"
  have "\<And>xs. header_steps xs = length (filter (\<lambda>t. t = ''header-step'') (map btype xs))"
    by (simp add: header_steps_def filter_map comp_def)
  then show ?thesis by (simp only: a)
qed

lemma set_article_keeps [simp]:
  "cells (set_article ev s a) = cells s" "step_header_num (set_article ev s a) = step_header_num s"
  "article_blocks (set_article ev s a) = article_blocks s" "keys (set_article ev s a) = keys s"
  "doc_version (set_article ev s a) = doc_version s"
  by (simp_all add: set_article_def Let_def split: option.splits)

lemma prepare_article_keeps [simp]:
  "cells (prepare_article ev s a) = cells s" "step_header_num (prepare_article ev s a) = step_header_num s"
  by (simp_all add: prepare_article_def Let_def)

lemma prepare_article_blocks:
  "map btype (article_blocks (prepare_article ev s a)) = map btype (a_blocks a) @ [''unstyled'']"
  by (simp add: prepare_article_def Let_def normalize_cells_types terminal_block_def)

lemma header_steps_prepare: "header_steps (article_blocks (prepare_article ev s a)) = header_steps (a_blocks a)"
proof -
  have "map btype (article_blocks (prepare_article ev s a)) = map btype (a_blocks a @ [terminal_block])"
    by (simp add: prepare_article_blocks terminal_block_def)
  from header_steps_types[OF this] show ?thesis
    by (simp add: header_steps_def terminal_block_def)
qed

lemma render_article_num:
  "step_header_num (render_article ev s a) = step_header_num s + int (header_steps (a_blocks a))"
  by (simp add: render_article_def Let_def foldl_dispatch_num header_steps_prepare)

section \<open>The header-step counter\<close>

lemma header_step_token [simp]:
  "contains ''link'' ''header-step'' = False" "contains ''img'' ''header-step'' = False"
  by code_simp+

lemma set_styles_header_step:
  "set_styles ev hp (Tok ''header-step'') \<lparr>srun = base_run c, alive = True\<rparr> t =
     (\<lparr>srun = step_run c, alive = True\<rparr>, [])"
  by (simp add: set_styles_def step_run_def)

lemma style_chars_header_step:
  "int i + int (length cs) \<le> n \<Longrightarrow>
   style_chars ev hp \<lparr>style = Tok ''header-step'', offset = 0, len = n\<rparr> i
     (zip cs (map (\<lambda>c. \<lparr>srun = base_run c, alive = True\<rparr>) cs)) =
   (map (\<lambda>c. \<lparr>srun = step_run c, alive = True\<rparr>) cs, [])"
  by (induction cs arbitrary: i) (simp_all add: set_styles_header_step)

lemma text_runs_num:
  "text_runs ev hp num [\<lparr>style = Tok ''header-step'', offset = 0, len = int (length num)\<rparr>] =
     (map step_run num, [])"
  using style_chars_header_step[of 0 num "int (length num)" ev hp]
  by (simp add: text_runs_def comp_def)

lemma add_text_num:
  "the_paragraph s = Some p \<Longrightarrow> num \<noteq> [] \<Longrightarrow>
   fst (add_text ev s (num_block num) None) = s\<lparr>body := append_runs (body s) p (map step_run num)\<rparr>"
  by (simp add: add_text_def num_block_def bubble_sort_def text_runs_num)

lemma add_text_body_at:
  "body (fst (add_text ev s b None)) = body s \<or>
   (\<exists>p rs. the_paragraph s = Some p \<and> body (fst (add_text ev s b None)) = append_runs (body s) p rs)"
  unfolding add_text_def
  by (auto split: prod.splits option.splits simp: Let_def)

lemma header_step_paragraph:
  "\<exists>rs. body (fst (add_header_step ev s b)) ! length (body s) =
      Paragraph ''Normal'' (map step_run (str_int (step_header_num s + 1) @ ''. '') @ rs)"
proof -
  let ?num = "str_int (step_header_num s + 1) @ ''. ''"
  let ?s1 = "add_paragraph (s\<lparr>depth_level := bdepth b\<rparr>) ''Normal''"
  let ?s2 = "?s1\<lparr>step_header_num := step_header_num ?s1 + 1\<rparr>"
  let ?s3 = "fst (add_text ev ?s2 (num_block ?num) None)"
  have p: "the_paragraph ?s2 = Some (InBody (length (body s)))" by (simp add: add_paragraph_def)
  have n: "step_header_num ?s2 = step_header_num s + 1" by simp
  have s3: "?s3 = ?s2\<lparr>body := append_runs (body ?s2) (InBody (length (body s))) (map step_run ?num)\<rparr>"
    using add_text_num[OF p, of ?num ev] by simp
  have b3: "body ?s3 ! length (body s) = Paragraph ''Normal'' (map step_run ?num)"
    by (subst s3) (simp add: add_paragraph_def)
  have p3: "the_paragraph ?s3 = Some (InBody (length (body s)))" using p by simp
  have l3: "length (body ?s3) = Suc (length (body s))" by (simp add: add_paragraph_def)
  have eq: "fst (add_header_step ev s b) = fst (add_text ev ?s3 b None)"
    by (simp add: add_header_step_def Let_def)
  from add_text_body_at[of ev ?s3 b] show ?thesis
  proof
    assume "body (fst (add_text ev ?s3 b None)) = body ?s3"
    with b3 eq show ?thesis by simp
  next
    assume "\<exists>p rs. the_paragraph ?s3 = Some p \<and> body (fst (add_text ev ?s3 b None)) = append_runs (body ?s3) p rs"
    then obtain q rs where q: "the_paragraph ?s3 = Some q"
      and bd: "body (fst (add_text ev ?s3 b None)) = append_runs (body ?s3) q rs" by blast
    from q p3 have "q = InBody (length (body s))" by simp
    with bd b3 l3 eq show ?thesis by simp
  qed
qed

lemma export_articles_num:
  "step_header_num (foldl (render_article ev) s as) =
     step_header_num s + int (header_steps (concat (map a_blocks as)))"
  by (induction as arbitrary: s) (simp_all add: render_article_num header_steps_def)

text \<open>
  Claim C6, as the code has it. The counter is set to 0 at the start of each book and not
  at the start of an article: an article adds the number of its header-step blocks to the
  value it finds, and a book ends with the number of header-step blocks of all its articles.
  \<^verbatim>\<open>_add_header_step\<close> adds one to the counter and opens a paragraph that starts with one
  bold run for each character of \<^verbatim>\<open>"{n}. "\<close>, \<open>n\<close> being the counter after the addition.
\<close>

theorem header_step_counter:
  "step_header_num (begin_book s bk) = 0 \<and>
   step_header_num (render_article ev s a) = step_header_num s + int (header_steps (a_blocks a)) \<and>
   step_header_num (export_book ev s bk) = int (header_steps (concat (map a_blocks (articles bk)))) \<and>
   step_header_num (fst (add_header_step ev s b)) = step_header_num s + 1 \<and>
   (\<exists>rs. body (fst (add_header_step ev s b)) ! length (body s) =
      Paragraph ''Normal'' (map step_run (str_int (step_header_num s + 1) @ ''. '') @ rs)) \<and>
   bold (step_run c) \<and> rtext (step_run c) = [c]"
  using header_step_paragraph [of ev s b]
  by (simp add: render_article_num export_book_def export_articles_num begin_book_def Let_def
        step_run_def base_run_def plain_run_def)

text \<open>In a book of two articles with one header-step block each, the block of the second
  article gets the prefix of the number 2.\<close>

theorem header_step_second_article_counterexample:
  "paragraph_texts (export ex_env two_step_articles) =
     [''S'', ''B'', [CHR 0x0A], ''1. A'', [CHR 0x0A], ''2. B''] \<and>
   step_header_num (export ex_env two_step_articles) = 2"
  by code_simp

section \<open>The cell cursor\<close>

lemma cell_open_error: "fst (cell_open s b) \<noteq> None \<Longrightarrow> snd (cell_open s b) = s"
  by (auto simp: cell_open_def Let_def split: option.splits if_splits)

lemma cell_open_cells: "doc_version s \<noteq> 3 \<Longrightarrow> cells (snd (cell_open s b)) = cells s"
  using cell_open_legacy[of s b] by auto

lemma cell_open_v3_cells:
  "doc_version s = 3 \<Longrightarrow> d_table_cols (bdata b) = Some c \<Longrightarrow> cells (snd (cell_open s b)) = 0"
  by (simp add: cell_open_def)

lemma add_text_body_some:
  "body (fst (add_text ev s b (Some p))) = body s \<or>
   (\<exists>rs. body (fst (add_text ev s b (Some p))) = append_runs (body s) p rs)"
  unfolding add_text_def
  by (auto split: prod.splits option.splits simp: Let_def)

lemma cell_write_fits:
  assumes "table s = Some t" and "cells s < length (table_rows (body s ! t) ! (length (table_rows (body s ! t)) - 1))"
  shows "snd (cell_write ev s b) =
           (fst (add_text ev s b (Some (InCell t (length (table_rows (body s ! t)) - 1) (cells s)))))\<lparr>cells := cells s + 1\<rparr>"
  using assms by (simp add: cell_write_def Let_def)

lemma cell_write_cells:
  "cells (snd (cell_write ev s b)) = cells s + 1 \<or> cells (snd (cell_write ev s b)) = cells s \<or>
   (\<exists>t. table s = Some t \<and> length (table_rows (body s ! t) ! (length (table_rows (body s ! t)) - 1)) \<le> cells s
      \<and> cells (snd (cell_write ev s b)) \<le> 1)"
  by (cases "table s") (auto simp: cell_write_def Let_def)

lemma add_table_cell_eq:
  "cells (add_table_cell ev s b) =
     (if fst (cell_open s b) = None then cells (snd (cell_write ev (snd (cell_open s b)) b))
      else cells (snd (cell_open s b)))"
  "body (add_table_cell ev s b) =
     (if fst (cell_open s b) = None then body (snd (cell_write ev (snd (cell_open s b)) b))
      else body (snd (cell_open s b)))"
  by (simp_all add: add_table_cell_def prod.case_eq_if split: option.splits)

lemma fresh_table_placement:
  assumes leg: "doc_version s \<noteq> 3"
    and opened: "length (body s) < length (body (add_table_cell ev s b))"
    and fits: "cells s < table_cols (body (add_table_cell ev s b) ! length (body s))"
  shows "cells (add_table_cell ev s b) = cells s + 1 \<and>
         (\<forall>j. j \<noteq> cells s \<longrightarrow> j < table_cols (body (add_table_cell ev s b) ! length (body s)) \<longrightarrow>
              table_rows (body (add_table_cell ev s b) ! length (body s)) ! 0 ! j = [])"
proof -
  let ?n = "length (body s)"
  let ?s1 = "snd (cell_open s b)"
  let ?c = "(if bdepth b = 0 then 2 else if bdepth b = 1 then 4 else if bdepth b = 2 then 2 else if bdepth b = 3 then 3 else (1::nat))"
  have cols: "table_cols (body (add_table_cell ev s b) ! ?n) = ?c"
    using legacy_open_table[OF leg opened] by simp
  have len: "length (body (add_table_cell ev s b)) = length (body ?s1)"
    using cell_write_body[of ev ?s1 b 0] by (simp add: add_table_cell_eq)
  with opened have ne: "?s1 \<noteq> s" by auto
  then have ok: "fst (cell_open s b) = None" using cell_open_error[of s b] by blast
  from cell_open_legacy[OF leg, of b] ne len opened
  have s1: "?s1 = s\<lparr>table := Some ?n, body := body s @ [new_table 1 ?c]\<rparr>" by auto
  have t1: "table ?s1 = Some ?n" by (subst s1) simp
  have b1: "body ?s1 ! ?n = new_table 1 ?c" by (subst s1) simp
  have c1: "cells ?s1 = cells s" by (subst s1) simp
  have rws: "table_rows (body ?s1 ! ?n) = [replicate ?c []]" by (simp add: b1 new_table_def)
  have fit: "cells ?s1 < length (table_rows (body ?s1 ! ?n) ! (length (table_rows (body ?s1 ! ?n)) - 1))"
    using fits cols by (simp add: rws c1)
  let ?w = "fst (add_text ev ?s1 b (Some (InCell ?n 0 (cells s))))"
  have w: "snd (cell_write ev ?s1 b) = ?w\<lparr>cells := cells s + 1\<rparr>"
    using cell_write_fits[OF t1 fit, of ev b] by (simp add: rws c1)
  have cellsw: "cells (add_table_cell ev s b) = cells s + 1"
    by (simp add: add_table_cell_eq ok w)
  have bodyw: "body (add_table_cell ev s b) = body ?w"
    by (simp add: add_table_cell_eq ok w)
  have l1: "?n < length (body ?s1)" by (subst s1) simp
  have rest: "table_rows (body ?w ! ?n) ! 0 ! j = []" if "j \<noteq> cells s" "j < ?c" for j
  proof -
    from add_text_body_some[of ev ?s1 b "InCell ?n 0 (cells s)"]
    show ?thesis
    proof
      assume "body ?w = body ?s1"
      then show ?thesis using rws that by simp
    next
      assume "\<exists>rs. body ?w = append_runs (body ?s1) (InCell ?n 0 (cells s)) rs"
      then obtain rs where "body ?w = append_runs (body ?s1) (InCell ?n 0 (cells s)) rs" ..
      then show ?thesis using l1 that fits cols
        by (simp add: b1 new_table_def)
    qed
  qed
  show ?thesis using cellsw rest cols by (simp add: bodyw)
qed

lemma add_table_cell_reset_only_overflow:
  assumes leg: "doc_version s \<noteq> 3"
    and ch: "cells (add_table_cell ev s b) \<noteq> cells s" "cells (add_table_cell ev s b) \<noteq> cells s + 1"
  shows "\<exists>t. table (snd (cell_open s b)) = Some t \<and>
           length (table_rows (body (snd (cell_open s b)) ! t) ! (length (table_rows (body (snd (cell_open s b)) ! t)) - 1)) \<le> cells s \<and>
           cells (add_table_cell ev s b) \<le> 1"
  using cell_write_cells[of ev "snd (cell_open s b)" b] cell_open_cells[OF leg, of b] ch
  by (auto simp: add_table_cell_eq split: if_splits)

text \<open>
  Claim C10. Opening a table on the legacy path leaves the cell cursor as it is. When the
  cursor is below the column count of the table just opened, the block's text goes to the
  cell of the first row at the cursor's column, every other cell of that row stays empty, and
  the cursor advances by one. The cursor is 0 at the start of a book and after a table is
  opened for document version 3; no block other than a cell changes it, nor does the
  preparation of an article; and a legacy cell sets it back only when it has reached the
  end of the last row.
\<close>

theorem legacy_cursor_kept:
  "(doc_version s \<noteq> 3 \<longrightarrow> cells (snd (cell_open s b)) = cells s) \<and>
   (doc_version s \<noteq> 3 \<and> length (body s) < length (body (add_table_cell ev s b)) \<and>
    cells s < table_cols (body (add_table_cell ev s b) ! length (body s)) \<longrightarrow>
      cells (add_table_cell ev s b) = cells s + 1 \<and>
      (\<forall>j. j \<noteq> cells s \<longrightarrow> j < table_cols (body (add_table_cell ev s b) ! length (body s)) \<longrightarrow>
           table_rows (body (add_table_cell ev s b) ! length (body s)) ! 0 ! j = [])) \<and>
   cells (begin_book s bk) = 0 \<and>
   (doc_version s = 3 \<and> d_table_cols (bdata b) \<noteq> None \<longrightarrow> cells (snd (cell_open s b)) = 0) \<and>
   (btype b \<noteq> ''cell'' \<longrightarrow> cells (dispatch ev s b) = cells s) \<and>
   cells (prepare_article ev s a) = cells s \<and>
   (doc_version s \<noteq> 3 \<and> cells (add_table_cell ev s b) \<noteq> cells s \<and>
    cells (add_table_cell ev s b) \<noteq> cells s + 1 \<longrightarrow>
      (\<exists>t. table (snd (cell_open s b)) = Some t \<and>
           length (table_rows (body (snd (cell_open s b)) ! t) !
             (length (table_rows (body (snd (cell_open s b)) ! t)) - 1)) \<le> cells s \<and>
           cells (add_table_cell ev s b) \<le> 1))"
  using fresh_table_placement [of s ev b] add_table_cell_reset_only_overflow [of s ev b]
    cell_open_v3_cells [of s b]
  by (auto simp: cell_open_cells dispatch_cells begin_book_def Let_def)

text \<open>After a table that left the cursor at 1, the first cell of the next table of a legacy
  article is written at column 1.\<close>

theorem legacy_cursor_kept_witness:
  "doc_version second_table_state \<noteq> 3 \<and> cells second_table_state = 1 \<and>
   length (body second_table_state) <
     length (body (add_table_cell ex_env second_table_state (ex_block ''cell'' ''k3'' ''B'' 0))) \<and>
   cells (add_table_cell ex_env second_table_state (ex_block ''cell'' ''k3'' ''B'' 0)) = 2 \<and>
   table_rows (body (add_table_cell ex_env second_table_state (ex_block ''cell'' ''k3'' ''B'' 0)) ! 0) ! 0 ! 0 = [] \<and>
   tables_of (add_table_cell ex_env second_table_state (ex_block ''cell'' ''k3'' ''B'' 0)) = [(2, [[[], ''B'']])]"
proof -
  let ?b = "ex_block ''cell'' ''k3'' ''B'' 0"
  have h1: "doc_version second_table_state \<noteq> 3" by code_simp
  have h2: "length (body second_table_state) < length (body (add_table_cell ex_env second_table_state ?b))"
    by code_simp
  have h3: "cells second_table_state < table_cols (body (add_table_cell ex_env second_table_state ?b) ! length (body second_table_state))"
    by code_simp
  have c: "cells second_table_state = 1" "length (body second_table_state) = 0" by code_simp+
  have t: "tables_of (add_table_cell ex_env second_table_state ?b) = [(2, [[[], ''B'']])]" by code_simp
  have tc: "table_cols (body (add_table_cell ex_env second_table_state ?b) ! 0) = 2" by code_simp
  show ?thesis
    using legacy_cursor_kept [where s = second_table_state and b = ?b and ev = ex_env] h1 h2 h3 c t tc
    by simp
qed

section \<open>A picture that is not recognised\<close>

lemma figure_no_exception: "btype b = ''figure'' \<Longrightarrow> fst (handle ev s b) = None"
  by (simp add: handle_def)

lemma place_picture_raises:
  "add_picture ev stream = Inl e \<Longrightarrow> fst (place_picture ev s stream label) = Some e"
  by (simp add: place_picture_def)

lemma set_picture_catches:
  "url \<noteq> [] \<Longrightarrow> set_picture_body ev s url label depth rn sa border = (Some e, s') \<Longrightarrow>
   set_picture ev s url label depth rn sa border = s'\<lparr>captured := captured s' @ [e]\<rparr>"
  by (simp add: set_picture_def capture_def)




section \<open>The depth pre-pass\<close>

lemma index_of_distinct: "distinct xs \<Longrightarrow> i < length xs \<Longrightarrow> index_of xs (xs ! i) = Some i"
proof (induction xs arbitrary: i)
  case Nil then show ?case by simp
next
  case (Cons x xs)
  show ?case
  proof (cases i)
    case 0 then show ?thesis by simp
  next
    case (Suc j)
    with Cons.prems have "j < length xs" "distinct xs" "x \<noteq> xs ! j" by auto
    with Cons.IH[of j] Suc show ?thesis by simp
  qed
qed

lemma detected_exhibits:
  assumes "distinct (map bkey bs)" "i < length bs"
  shows "detected (map bkey bs) bs i = exhibits bs i"
proof -
  have "index_of (map bkey bs) (bkey (bs ! i)) = Some i"
    using index_of_distinct[of "map bkey bs" i] assms by simp
  then show ?thesis by (auto simp: detected_def exhibits_def peek_depths_def)
qed

lemma normalize_no_detection:
  "(\<forall>j. i \<le> j \<and> j < length bs \<longrightarrow> \<not> detected ks bs j) \<Longrightarrow> normalize_cells i ks bs = bs"
proof (induction i ks bs rule: normalize_cells.induct)
  case (1 i ks bs)
  show ?case
  proof (cases "i < length bs")
    case False
    then show ?thesis by (subst normalize_cells.simps) simp
  next
    case lt: True
    have nd: "\<not> detected ks bs i" using "1.prems" lt by simp
    have rest: "\<forall>j. i + 1 \<le> j \<and> j < length bs \<longrightarrow> \<not> detected ks bs j" using "1.prems" by simp
    show ?thesis
    proof (cases "btype (bs ! i) = ''cell''")
      case False
      with lt "1.IH"(3) rest show ?thesis by (subst normalize_cells.simps) simp
    next
      case c: True
      show ?thesis
      proof (cases "peek_depths ks bs i")
        case None
        with lt c show ?thesis by (subst normalize_cells.simps) simp
      next
        case (Some ds)
        with nd c have "\<not> (bdepth (bs ! i) = 1 \<and> ds ! 2 = 2)" by (simp add: detected_def)
        with lt c Some "1.IH"(2) rest show ?thesis by (subst normalize_cells.simps) auto
      qed
    qed
  qed
qed

lemma set_depth3_keys [simp]: "map bkey (set_depth3 bs i) = map bkey bs"
  by (cases "i < length bs") (auto simp: set_depth3_def nth_list_update list_update_beyond intro!: nth_equalityI)

lemma set_depth3_nth:
  "j < length bs \<Longrightarrow> bdepth (set_depth3 bs i ! j) = (if j = i then 3 else bdepth (bs ! j))"
  "j < length bs \<Longrightarrow> btype (set_depth3 bs i ! j) = btype (bs ! j)"
  by (cases "i < length bs"; auto simp: set_depth3_def nth_list_update list_update_beyond)+

lemma normalize_cells_keys: "map bkey (normalize_cells i ks bs) = map bkey bs"
proof (induction i ks bs rule: normalize_cells.induct)
  case (1 i ks bs)
  show ?case
  proof (cases "i < length bs")
    case False
    then show ?thesis by (subst normalize_cells.simps) simp
  next
    case lt: True
    show ?thesis
    proof (cases "btype (bs ! i) = ''cell''")
      case False
      with lt "1.IH"(3) show ?thesis by (subst normalize_cells.simps) simp
    next
      case c: True
      show ?thesis
      proof (cases "peek_depths ks bs i")
        case None
        with lt c show ?thesis by (subst normalize_cells.simps) simp
      next
        case (Some ds)
        show ?thesis
        proof (cases "bdepth (bs ! i) = 1 \<and> ds ! 2 = 2")
          case False
          with lt c Some "1.IH"(2) show ?thesis by (subst normalize_cells.simps) auto
        next
          case True
          with lt c Some "1.IH"(1) show ?thesis
            by (subst normalize_cells.simps) (auto simp: Let_def)
        qed
      qed
    qed
  qed
qed

lemma exhibits_after_rewrite:
  assumes "i + 2 < length bs" "j < i + 2" "j < i \<longrightarrow> \<not> exhibits bs j"
  shows "\<not> exhibits (set_depth3 (set_depth3 (set_depth3 bs i) (i + 1)) (i + 2)) j"
  using assms by (auto simp: exhibits_def set_depth3_nth)

lemma normalize_leaves_none:
  "ks = map bkey bs \<Longrightarrow> distinct ks \<Longrightarrow> (\<forall>j < i. \<not> exhibits bs j) \<Longrightarrow> j < length bs \<Longrightarrow>
   \<not> exhibits (normalize_cells i ks bs) j"
proof (induction i ks bs rule: normalize_cells.induct)
  case (1 i ks bs)
  show ?case
  proof (cases "i < length bs")
    case False
    with "1.prems" show ?thesis by (subst normalize_cells.simps) simp
  next
    case lt: True
    have det: "detected ks bs i = exhibits bs i"
      using detected_exhibits[of bs i] "1.prems"(1,2) lt by simp
    show ?thesis
    proof (cases "exhibits bs i")
      case False
      have pre: "\<forall>j < i + 1. \<not> exhibits bs j" using "1.prems"(3) False by (auto simp: less_Suc_eq)
      show ?thesis
      proof (cases "btype (bs ! i) = ''cell''")
        case nc: False
        have step: "normalize_cells i ks bs = normalize_cells (i + 1) ks bs"
          using lt nc by (subst normalize_cells.simps) simp
        from "1.IH"(3)[OF lt nc "1.prems"(1,2) pre "1.prems"(4)] step show ?thesis by simp
      next
        case c: True
        obtain ds where ds: "peek_depths ks bs i = Some ds"
          using index_of_distinct[of ks i] "1.prems"(1,2) lt by (auto simp: peek_depths_def)
        have n: "\<not> (bdepth (bs ! i) = 1 \<and> ds ! 2 = 2)" using False det c ds by (simp add: detected_def)
        have step: "normalize_cells i ks bs = normalize_cells (i + 1) ks bs"
          using lt c ds n by (subst normalize_cells.simps) auto
        from "1.IH"(2)[OF lt c ds n "1.prems"(1,2) pre "1.prems"(4)] step show ?thesis by simp
      qed
    next
      case True
      then have c: "btype (bs ! i) = ''cell''" and i2: "i + 2 < length bs" by (auto simp: exhibits_def)
      obtain ds where ds: "peek_depths ks bs i = Some ds" and d: "bdepth (bs ! i) = 1 \<and> ds ! 2 = 2"
        using True det by (auto simp: detected_def split: option.splits)
      let ?bs = "set_depth3 (set_depth3 (set_depth3 bs i) (i + 1)) (i + 2)"
      have step: "normalize_cells i ks bs = normalize_cells (i + 2) ks ?bs"
        using lt c ds d i2 by (subst normalize_cells.simps) (simp add: Let_def)
      have k: "ks = map bkey ?bs" using "1.prems"(1) by simp
      have pre: "\<forall>j < i + 2. \<not> exhibits ?bs j"
        using exhibits_after_rewrite[OF i2] "1.prems"(3) by blast
      have i1: "i + 1 < length bs" using i2 by simp
      have jl: "j < length ?bs" using "1.prems"(4) by simp
      from "1.IH"(1)[OF lt c ds d refl i1 refl i2 k "1.prems"(2) pre jl] step show ?thesis by simp
    qed
  qed
qed

lemma normalize_cells_length [simp]: "length (normalize_cells i ks bs) = length bs"
  using normalize_cells_keys[of i ks bs] by (metis length_map)

text \<open>Setting a depth to 3 lets the test of the pre-pass succeed nowhere new, so the list
  that the pre-pass returns passes the test nowhere, whatever the keys are.\<close>

lemma set_depth3_other: "bdepth (set_depth3 bs k ! j) \<noteq> 3 \<Longrightarrow> set_depth3 bs k ! j = bs ! j"
  by (cases "k < length bs"; cases "j = k") (auto simp: set_depth3_def list_update_beyond)

lemma set_depth3_key: "bkey (set_depth3 bs k ! j) = bkey (bs ! j)"
  by (cases "k < length bs"; cases "j = k") (auto simp: set_depth3_def list_update_beyond)

lemma detected_set_depth3:
  assumes "detected ks (set_depth3 bs k) j"
  shows "detected ks bs j"
proof -
  from assms have c: "btype (set_depth3 bs k ! j) = ''cell''" and d: "bdepth (set_depth3 bs k ! j) = 1"
    by (simp_all add: detected_def)
  from d have same: "set_depth3 bs k ! j = bs ! j" by (intro set_depth3_other) simp
  from assms obtain ds where ds: "peek_depths ks (set_depth3 bs k) j = Some ds" and t: "ds ! 2 = 2"
    by (auto simp: detected_def split: option.splits)
  from ds obtain k0 where k0: "index_of ks (bkey (bs ! j)) = Some k0"
    by (auto simp: peek_depths_def set_depth3_key split: option.splits)
  have lt: "k0 + 2 < length bs"
  proof (rule ccontr)
    assume "\<not> k0 + 2 < length bs"
    with ds k0 have "ds = [1, 1, 1]" by (simp add: peek_depths_def set_depth3_key)
    with t show False by simp
  qed
  with ds k0 have e: "ds ! 2 = bdepth (set_depth3 bs k ! (k0 + 2))"
    by (auto simp: peek_depths_def set_depth3_key)
  with t have "bdepth (set_depth3 bs k ! (k0 + 2)) \<noteq> 3" by simp
  then have "set_depth3 bs k ! (k0 + 2) = bs ! (k0 + 2)" by (rule set_depth3_other)
  with t e have two: "bdepth (bs ! (k0 + 2)) = 2" by simp
  show "detected ks bs j"
    using c d same k0 lt two by (simp add: detected_def peek_depths_def)
qed

lemma index_of_member: "x \<in> set xs \<Longrightarrow> index_of xs x \<noteq> None"
  by (induction xs) auto

lemma peek_depths_found:
  "i < length bs \<Longrightarrow> \<exists>ds. peek_depths (map bkey bs) bs i = Some ds"
  using index_of_member[of "bkey (bs ! i)" "map bkey bs"]
  by (auto simp: peek_depths_def)

lemma depth3_not_detected: "bdepth (bs ! j) = 3 \<Longrightarrow> \<not> detected ks bs j"
  by (simp add: detected_def)

lemma normalize_detects_nothing:
  "ks = map bkey bs \<Longrightarrow> (\<forall>j < i. j < length bs \<longrightarrow> \<not> detected ks bs j) \<Longrightarrow> j < length bs \<Longrightarrow>
   \<not> detected ks (normalize_cells i ks bs) j"
proof (induction i ks bs rule: normalize_cells.induct)
  case (1 i ks bs)
  show ?case
  proof (cases "i < length bs")
    case False
    with "1.prems" show ?thesis by (subst normalize_cells.simps) simp
  next
    case lt: True
    show ?thesis
    proof (cases "detected ks bs i")
      case False
      have pre: "\<forall>j < i + 1. j < length bs \<longrightarrow> \<not> detected ks bs j"
        using "1.prems"(2) False by (auto simp: less_Suc_eq)
      show ?thesis
      proof (cases "btype (bs ! i) = ''cell''")
        case nc: False
        have step: "normalize_cells i ks bs = normalize_cells (i + 1) ks bs"
          using lt nc by (subst normalize_cells.simps) simp
        from "1.IH"(3)[OF lt nc "1.prems"(1) pre "1.prems"(3)] step show ?thesis by simp
      next
        case c: True
        obtain ds where ds: "peek_depths ks bs i = Some ds"
          using peek_depths_found[OF lt] "1.prems"(1) by auto
        have n: "\<not> (bdepth (bs ! i) = 1 \<and> ds ! 2 = 2)" using False c ds by (simp add: detected_def)
        have step: "normalize_cells i ks bs = normalize_cells (i + 1) ks bs"
          using lt c ds n by (subst normalize_cells.simps) auto
        from "1.IH"(2)[OF lt c ds n "1.prems"(1) pre "1.prems"(3)] step show ?thesis by simp
      qed
    next
      case True
      then have c: "btype (bs ! i) = ''cell''" by (simp add: detected_def)
      obtain ds where ds: "peek_depths ks bs i = Some ds" and d: "bdepth (bs ! i) = 1 \<and> ds ! 2 = 2"
        using True by (auto simp: detected_def split: option.splits)
      let ?b1 = "set_depth3 bs i"
      let ?b2 = "set_depth3 ?b1 (i + 1)"
      let ?b3 = "set_depth3 ?b2 (i + 2)"
      have old: "\<not> detected ks ?b1 j'" "\<not> detected ks ?b2 j'" "\<not> detected ks ?b3 j'"
        if "j' < i" "j' < length bs" for j'
        using that "1.prems"(2) detected_set_depth3 by blast+
      have at_i: "bdepth (?b1 ! i) = 3" "bdepth (?b2 ! i) = 3" "bdepth (?b3 ! i) = 3"
        using lt by (simp_all add: set_depth3_nth)
      show ?thesis
      proof (cases "i + 1 < length bs")
        case False
        have res: "normalize_cells i ks bs = ?b1"
          using lt c ds d False by (subst normalize_cells.simps) (simp add: Let_def)
        have "j < i \<or> j = i" using "1.prems"(3) False by auto
        then show ?thesis using old(1)[of j] at_i(1) "1.prems"(3) depth3_not_detected[of ?b1 i ks]
          by (auto simp: res)
      next
        case i1: True
        have at_i1: "bdepth (?b2 ! (i + 1)) = 3" "bdepth (?b3 ! (i + 1)) = 3"
          using i1 by (simp_all add: set_depth3_nth)
        show ?thesis
        proof (cases "i + 2 < length bs")
          case False
          have res: "normalize_cells i ks bs = ?b2"
            using lt c ds d i1 False by (subst normalize_cells.simps) (simp add: Let_def)
          have "j < i \<or> j = i \<or> j = i + 1" using "1.prems"(3) False by auto
          then show ?thesis
            using old(2)[of j] at_i(2) at_i1(1) "1.prems"(3)
              depth3_not_detected[of ?b2 i ks] depth3_not_detected[of ?b2 "i + 1" ks]
            by (auto simp: res)
        next
          case i2: True
          have step: "normalize_cells i ks bs = normalize_cells (i + 2) ks ?b3"
            using lt c ds d i1 i2 by (subst normalize_cells.simps) (simp add: Let_def)
          have k: "ks = map bkey ?b3" using "1.prems"(1) by simp
          have pre: "\<forall>j' < i + 2. j' < length ?b3 \<longrightarrow> \<not> detected ks ?b3 j'"
          proof (intro allI impI)
            fix j' assume a: "j' < i + 2" "j' < length ?b3"
            then have "j' < i \<or> j' = i \<or> j' = i + 1" by auto
            then show "\<not> detected ks ?b3 j'"
              using old(3)[of j'] a(2) at_i(3) at_i1(2)
                depth3_not_detected[of ?b3 i ks] depth3_not_detected[of ?b3 "i + 1" ks]
              by auto
          qed
          have jl: "j < length ?b3" using "1.prems"(3) by simp
          from "1.IH"(1)[OF lt c ds d refl i1 refl i2 k pre jl] step show ?thesis by simp
        qed
      qed
    qed
  qed
qed

lemma prepass_twice:
  "normalize_cells 0 (map bkey bs) (normalize_cells 0 (map bkey bs) bs) = normalize_cells 0 (map bkey bs) bs"
proof -
  let ?ks = "map bkey bs"
  let ?n = "normalize_cells 0 ?ks bs"
  have "\<not> detected ?ks ?n j" if "j < length ?n" for j
    using normalize_detects_nothing[of ?ks bs 0 j] that by simp
  then show ?thesis by (intro normalize_no_detection) simp
qed

text \<open>
  Claim C3, as the code has it. The pre-pass is idempotent: a second run on the list that it
  has returned changes nothing, for every list. It leaves a list as it is when its test
  succeeds at no block; the test reads the three depths from the first position of the
  cell's key. When the keys of the blocks differ from each other, that position is the
  cell's own, the test is the pattern \<open>[1, ?, 2]\<close> at the cell, a list in which no cell
  block exhibits the pattern is left as it is, and the list that the pre-pass returns
  exhibits the pattern nowhere.
\<close>

theorem prepass_idempotent:
  "normalize_cells 0 (map bkey bs) (normalize_cells 0 (map bkey bs) bs) =
     normalize_cells 0 (map bkey bs) bs \<and>
   ((\<forall>i < length bs. \<not> detected (map bkey bs) bs i) \<longrightarrow>
      normalize_cells 0 (map bkey bs) bs = bs) \<and>
   (distinct (map bkey bs) \<longrightarrow>
      (\<forall>i < length bs. detected (map bkey bs) bs i = exhibits bs i) \<and>
      ((\<forall>i < length bs. \<not> exhibits bs i) \<longrightarrow> normalize_cells 0 (map bkey bs) bs = bs) \<and>
      (\<forall>i < length bs. \<not> exhibits (normalize_cells 0 (map bkey bs) bs) i))"
proof (intro conjI impI)
  show "normalize_cells 0 (map bkey bs) (normalize_cells 0 (map bkey bs) bs) =
     normalize_cells 0 (map bkey bs) bs"
    by (rule prepass_twice)
next
  assume "\<forall>i < length bs. \<not> detected (map bkey bs) bs i"
  then show "normalize_cells 0 (map bkey bs) bs = bs"
    by (intro normalize_no_detection) simp
next
  assume d: "distinct (map bkey bs)"
  then show "\<forall>i < length bs. detected (map bkey bs) bs i = exhibits bs i"
    by (simp add: detected_exhibits)
  show "\<forall>i < length bs. \<not> exhibits (normalize_cells 0 (map bkey bs) bs) i"
    using normalize_leaves_none[of "map bkey bs" bs 0] d by simp
next
  assume "distinct (map bkey bs)" and "\<forall>i < length bs. \<not> exhibits bs i"
  then show "normalize_cells 0 (map bkey bs) bs = bs"
    by (auto intro!: normalize_no_detection simp: detected_exhibits)
qed

text \<open>The cells of depths 1, 1, 2 become three cells of depth 3, which the pre-pass leaves
  as they are; and a second run leaves the four blocks with a repeated key as the first run
  returned them.\<close>

theorem prepass_idempotent_witness:
  "distinct (map bkey cells_333) \<and>
   \<not> exhibits cells_333 0 \<and> \<not> exhibits cells_333 1 \<and> \<not> exhibits cells_333 2 \<and>
   \<not> detected (map bkey cells_333) cells_333 0 \<and> \<not> detected (map bkey cells_333) cells_333 1 \<and>
   \<not> detected (map bkey cells_333) cells_333 2 \<and>
   normalize_cells 0 (map bkey cells_112) cells_112 = cells_333 \<and>
   normalize_cells 0 (map bkey cells_333) cells_333 = cells_333 \<and>
   normalize_cells 0 (map bkey cells_112) (normalize_cells 0 (map bkey cells_112) cells_112) = cells_333 \<and>
   map bdepth (normalize_cells 0 (map bkey repeated_key)
      (normalize_cells 0 (map bkey repeated_key) repeated_key)) = [0, 0, 2, 3]"
proof -
  have d: "distinct (map bkey cells_333)" by code_simp
  have n: "\<forall>i < length cells_333. \<not> exhibits cells_333 i"
    by (auto simp: exhibits_def cells_333_def ex_block_def less_Suc_eq)
  have f: "normalize_cells 0 (map bkey cells_112) cells_112 = cells_333" by code_simp
  have e: "\<not> exhibits cells_333 0" "\<not> exhibits cells_333 1" "\<not> exhibits cells_333 2"
    "\<not> detected (map bkey cells_333) cells_333 0" "\<not> detected (map bkey cells_333) cells_333 1"
    "\<not> detected (map bkey cells_333) cells_333 2"
    by code_simp+
  have r: "normalize_cells 0 (map bkey cells_333) cells_333 = cells_333"
    using prepass_idempotent [of cells_333] d n by blast
  have t: "normalize_cells 0 (map bkey cells_112) (normalize_cells 0 (map bkey cells_112) cells_112) = cells_333"
    using prepass_idempotent [of cells_112] f by simp
  have q: "map bdepth (normalize_cells 0 (map bkey repeated_key) repeated_key) = [0, 0, 2, 3]"
    by code_simp
  have u: "map bdepth (normalize_cells 0 (map bkey repeated_key)
      (normalize_cells 0 (map bkey repeated_key) repeated_key)) = [0, 0, 2, 3]"
    using prepass_idempotent [of repeated_key] q by simp
  show ?thesis using d e f r t u by blast
qed

text \<open>Four blocks of the depths 0, 0, 2, 1, of which the last, a cell, has the key of the
  first: no block exhibits the pattern, yet the pre-pass reads the depths from the position
  of the first block and sets the depth of the cell to 3.\<close>

theorem prepass_repeated_key_counterexample:
  "map bkey repeated_key = [''k1'', ''k2'', ''k3'', ''k1''] \<and>
   map bdepth repeated_key = [0, 0, 2, 1] \<and>
   \<not> exhibits repeated_key 0 \<and> \<not> exhibits repeated_key 1 \<and>
   \<not> exhibits repeated_key 2 \<and> \<not> exhibits repeated_key 3 \<and>
   map bdepth (normalize_cells 0 (map bkey repeated_key) repeated_key) = [0, 0, 2, 3] \<and>
   map bdepth (article_blocks (prepare_article ex_env init_exporter (ex_article 2 repeated_key))) =
     [0, 0, 2, 3, 0]"
  by code_simp

section \<open>A failing copy in the style merge\<close>

lemma copy_all_stops:
  "copy_all cp based as f = (Some e, f') \<Longrightarrow> copy_all cp based (as @ rest) f = (Some e, f')"
  by (induction as arbitrary: f) (auto split: option.splits)

lemma merge_paragraphs_stops:
  "merge_paragraphs cp bf attrs sts fonts = (Some e, fonts') \<Longrightarrow>
   merge_paragraphs cp bf attrs (sts @ rest) fonts = (Some e, fonts')"
  by (induction sts arbitrary: fonts) (auto split: option.splits prod.splits)

lemma merge_fails:
  "fst (merge_paragraphs cp (based_fonts [] t) copy_attrs (par_styles d) (style_fonts d)) \<noteq> None \<Longrightarrow>
   merge cp d t = None \<and> exporter_merge cp (Some d) (Some t) = None"
  by (auto simp: merge_def exporter_merge_def split: prod.splits option.splits)

lemma copy_all_total:
  "(\<forall>b f a. cp b f a \<noteq> None) \<Longrightarrow> copy_all cp based as f = (None, copy_all_skipping cp based as f)"
  by (induction as arbitrary: f) (auto split: option.splits)

lemma map_of_dict_set: "map_of (dict_set d k v) k' = (if k' = k then Some v else map_of d k')"
  by (induction d k v rule: dict_set.induct) auto

lemma merge_paragraphs_total:
  "(\<forall>b f a. cp b f a \<noteq> None) \<Longrightarrow> (\<forall>st \<in> set sts. map_of fonts st \<noteq> None) \<Longrightarrow>
   merge_paragraphs cp bf attrs sts fonts = (None, merge_skipping cp bf attrs sts fonts)"
proof (induction sts arbitrary: fonts)
  case Nil then show ?case by simp
next
  case (Cons st sts)
  obtain f where f: "map_of fonts st = Some f" using Cons.prems(2) by auto
  show ?case
  proof (cases "map_of bf st")
    case None
    with Cons show ?thesis by simp
  next
    case (Some based)
    have "\<forall>x \<in> set sts. map_of (dict_set fonts st (copy_all_skipping cp based attrs f)) x \<noteq> None"
      using Cons.prems(2) by (simp add: map_of_dict_set)
    from Cons.IH[OF Cons.prems(1) this] Some f copy_all_total[OF Cons.prems(1)]
    show ?thesis by simp
  qed
qed

lemma copy_all_first_failure:
  "copy_all cp based as f = (None, f1) \<Longrightarrow> cp based f1 a = None \<Longrightarrow>
   copy_all cp based (as @ a # rest) f = (Some AttributeError, f1)"
  by (induction as arbitrary: f) (auto split: option.splits)

text \<open>
  Claim C7, as the code has it. No handler stands around the copy of one attribute. When the
  copy of an attribute raises, the loop over the attributes ends there with the font as the
  copies before it left it, whatever attributes follow; and the loop over the paragraphs
  ends with it, whatever paragraphs follow. When no copy raises, the merge returns the
  document with every attribute copied for every paragraph whose style the template samples,
  which is then also what a merge that skips failing copies gives.
\<close>

theorem merge_stops_at_failure:
  "(copy_all cp based as f = (None, f1) \<and> cp based f1 a = None \<longrightarrow>
      copy_all cp based (as @ a # rest) f = (Some AttributeError, f1)) \<and>
   (merge_paragraphs cp bf attrs sts fonts = (Some e, fonts') \<longrightarrow>
      merge_paragraphs cp bf attrs (sts @ later) fonts = (Some e, fonts')) \<and>
   ((\<forall>b g x. cp b g x \<noteq> None) \<and> (\<forall>st \<in> set (par_styles d). map_of (style_fonts d) st \<noteq> None) \<longrightarrow>
      merge cp d t = Some (d\<lparr>style_fonts :=
        merge_skipping cp (based_fonts [] t) copy_attrs (par_styles d) (style_fonts d)\<rparr>))"
  using merge_paragraphs_total [of cp "par_styles d" "style_fonts d" "based_fonts [] t" copy_attrs]
  by (auto simp: copy_all_first_failure merge_paragraphs_stops merge_def)

text \<open>With the copy that raises for \<^verbatim>\<open>math\<close>: \<^verbatim>\<open>italic\<close> is copied, \<^verbatim>\<open>name\<close> after it is
  not, and a second paragraph is not reached. With the copy that never raises the font of
  the style gets the template's name.\<close>

theorem merge_stops_at_failure_witness:
  "copy_all ex_cp ex_font [''italic''] [(''name'', ''Inter'')] = (None, [(''name'', ''Inter''), (''italic'', ''True'')]) \<and>
   ex_cp ex_font [(''name'', ''Inter''), (''italic'', ''True'')] ''math'' = None \<and>
   copy_all ex_cp ex_font ([''italic''] @ ''math'' # [''name'']) [(''name'', ''Inter'')] =
     (Some AttributeError, [(''name'', ''Inter''), (''italic'', ''True'')]) \<and>
   merge_paragraphs ex_cp (based_fonts [] ex_template) copy_attrs ([''Normal''] @ [''Normal'']) (style_fonts ex_produced) =
     (Some AttributeError, [(''Normal'', [(''name'', ''Inter''), (''italic'', ''True'')])]) \<and>
   par_styles ex_produced = [''Normal''] \<and>
   map_of (style_fonts ex_produced) ''Normal'' = Some [(''name'', ''Inter'')] \<and>
   map_option (\<lambda>d. map_option (\<lambda>f. map_of f ''name'') (map_of (style_fonts d) ''Normal''))
     (merge ok_cp ex_produced ex_template) = Some (Some (Some ''Arial''))"
proof -
  have h1: "copy_all ex_cp ex_font [''italic''] [(''name'', ''Inter'')] = (None, [(''name'', ''Inter''), (''italic'', ''True'')])"
    by code_simp
  have h2: "ex_cp ex_font [(''name'', ''Inter''), (''italic'', ''True'')] ''math'' = None" by code_simp
  have h3: "merge_paragraphs ex_cp (based_fonts [] ex_template) copy_attrs [''Normal''] (style_fonts ex_produced) =
     (Some AttributeError, [(''Normal'', [(''name'', ''Inter''), (''italic'', ''True'')])])"
    by code_simp
  have h4: "\<forall>b g x. ok_cp b g x \<noteq> None" by (simp add: ok_cp_def)
  have h5: "\<forall>st \<in> set (par_styles ex_produced). map_of (style_fonts ex_produced) st \<noteq> None"
    by (simp add: ex_produced_def)
  have v: "map_option (\<lambda>f. map_of f ''name'')
      (map_of (merge_skipping ok_cp (based_fonts [] ex_template) copy_attrs (par_styles ex_produced)
         (style_fonts ex_produced)) ''Normal'') = Some (Some ''Arial'')"
    by code_simp
  note t1 = merge_stops_at_failure [where cp = ex_cp and based = ex_font and as = "[''italic'']"
        and f = "[(''name'', ''Inter'')]" and ?f1.0 = "[(''name'', ''Inter''), (''italic'', ''True'')]"
        and a = "''math''" and rest = "[''name'']" and bf = "based_fonts [] ex_template"
        and attrs = copy_attrs and sts = "[''Normal'']" and fonts = "style_fonts ex_produced"
        and e = AttributeError and fonts' = "[(''Normal'', [(''name'', ''Inter''), (''italic'', ''True'')])]"
        and later = "[''Normal'']"]
  note t2 = merge_stops_at_failure [where cp = ok_cp and d = ex_produced and t = ex_template]
  from t1 h1 h2 have c3: "copy_all ex_cp ex_font ([''italic''] @ ''math'' # [''name'']) [(''name'', ''Inter'')] =
     (Some AttributeError, [(''name'', ''Inter''), (''italic'', ''True'')])" by blast
  from t1 h3 have c4: "merge_paragraphs ex_cp (based_fonts [] ex_template) copy_attrs ([''Normal''] @ [''Normal'']) (style_fonts ex_produced) =
     (Some AttributeError, [(''Normal'', [(''name'', ''Inter''), (''italic'', ''True'')])])" by blast
  from t2 h4 h5 have m: "merge ok_cp ex_produced ex_template = Some (ex_produced\<lparr>style_fonts :=
        merge_skipping ok_cp (based_fonts [] ex_template) copy_attrs (par_styles ex_produced) (style_fonts ex_produced)\<rparr>)"
    by blast
  have c5: "map_option (\<lambda>d. map_option (\<lambda>f. map_of f ''name'') (map_of (style_fonts d) ''Normal''))
     (merge ok_cp ex_produced ex_template) = Some (Some (Some ''Arial''))"
    by (simp add: m v)
  have p: "par_styles ex_produced = [''Normal'']"
    "map_of (style_fonts ex_produced) ''Normal'' = Some [(''name'', ''Inter'')]"
    by code_simp+
  from h1 h2 c3 c4 c5 p show ?thesis by blast
qed

text \<open>With the copy that raises for \<^verbatim>\<open>math\<close> the merge returns no document and the font of
  the style keeps its name, where a merge that skips the failing copy would go on to copy the
  template's name.\<close>

theorem merge_failure_counterexample:
  "merge ex_cp ex_produced ex_template = None \<and>
   snd (merge_paragraphs ex_cp (based_fonts [] ex_template) copy_attrs (par_styles ex_produced)
          (style_fonts ex_produced)) = [(''Normal'', [(''name'', ''Inter''), (''italic'', ''True'')])] \<and>
   map_option (\<lambda>f. map_of f ''name'')
     (map_of (merge_skipping ex_cp (based_fonts [] ex_template) copy_attrs (par_styles ex_produced)
        (style_fonts ex_produced)) ''Normal'') = Some (Some ''Arial'')"
  by code_simp

section \<open>The ranges of a block after its text is added\<close>

text \<open>The style loop gives each character the styles of the ranges that cover it, in the
  order of the list.\<close>

lemma style_chars_length [simp]: "length (fst (style_chars ev hp sr k zs)) = length zs"
  by (induction zs arbitrary: k) (auto simp: prod.case_eq_if Let_def)

lemma style_chars_nth:
  "j < length zs \<Longrightarrow>
   fst (style_chars ev hp sr k zs) ! j =
     (if covers sr (k + j) then fst (set_styles ev hp (style sr) (snd (zs ! j)) [fst (zs ! j)])
      else snd (zs ! j))"
proof (induction zs arbitrary: k j)
  case Nil
  then show ?case by simp
next
  case (Cons z zs)
  obtain c sl where z: "z = (c, sl)" by (cases z)
  show ?case
  proof (cases j)
    case 0
    then show ?thesis by (simp add: z prod.case_eq_if Let_def covers_def)
  next
    case (Suc i)
    with Cons.prems have "i < length zs" by simp
    from Cons.IH[OF this, of "Suc k"] Suc show ?thesis
      by (simp add: z prod.case_eq_if Let_def)
  qed
qed

lemma apply_styles_length [simp]:
  "length sls = length text \<Longrightarrow> length (fst (apply_styles ev hp text srs sls)) = length text"
  by (induction srs arbitrary: sls) (auto simp: prod.case_eq_if Let_def)

lemma apply_styles_nth:
  "length sls = length text \<Longrightarrow> j < length text \<Longrightarrow>
   fst (apply_styles ev hp text srs sls) ! j =
     foldl (\<lambda>sl sr. if covers sr j then fst (set_styles ev hp (style sr) sl [text ! j]) else sl)
       (sls ! j) srs"
proof (induction srs arbitrary: sls)
  case Nil
  then show ?case by simp
next
  case (Cons sr srs)
  let ?sls = "fst (style_chars ev hp sr 0 (zip text sls))"
  have l: "length ?sls = length text" using Cons.prems(1) by simp
  have n: "?sls ! j = (if covers sr j then fst (set_styles ev hp (style sr) (sls ! j) [text ! j]) else sls ! j)"
    using style_chars_nth[of j "zip text sls" ev hp sr 0] Cons.prems by simp
  have "fst (apply_styles ev hp text (sr # srs) sls) = fst (apply_styles ev hp text srs ?sls)"
    by (simp add: prod.case_eq_if Let_def)
  with Cons.IH[OF l Cons.prems(2)] n show ?case by simp
qed

lemma text_runs_by_char: "fst (text_runs ev hp text srs) = char_runs ev hp text srs"
proof (rule nth_equalityI)
  show "length (fst (text_runs ev hp text srs)) = length (char_runs ev hp text srs)"
    by (simp add: text_runs_def char_runs_def prod.case_eq_if)
next
  fix j assume "j < length (fst (text_runs ev hp text srs))"
  then have j: "j < length text" by (simp add: text_runs_def prod.case_eq_if)
  have c: "char_runs ev hp text srs ! j = srun (char_slot ev hp text srs j)"
    using j by (simp add: char_runs_def)
  show "fst (text_runs ev hp text srs) ! j = char_runs ev hp text srs ! j"
    using apply_styles_nth[of "map (\<lambda>c. \<lparr>srun = base_run c, alive = True\<rparr>) text" "text" j ev hp srs] j
    by (simp add: c text_runs_def char_slot_def prod.case_eq_if)
qed

lemma fold_entities_links:
  "fold_entities em es rs =
     (if list_all (link_ok em) es then None else Some KeyError,
      rs @ entity_styles em (takeWhile (link_ok em) es))"
proof (induction es arbitrary: rs)
  case Nil
  then show ?case by simp
next
  case (Cons e es)
  show ?case
  proof (cases "map_of em (ekey e)")
    case None
    then show ?thesis using Cons.IH[of rs] by (simp add: link_ok_def)
  next
    case (Some ent)
    show ?thesis
    proof (cases "etype ent")
      case None
      with Some show ?thesis using Cons.IH[of rs] by (simp add: link_ok_def)
    next
      case t: (Some t)
      show ?thesis
      proof (cases "t = ''LINK''")
        case True
        show ?thesis
        proof (cases "ehref ent")
          case None
          with Some t True show ?thesis by (simp add: link_ok_def)
        next
          case h: (Some h)
          with Some t True show ?thesis
            using Cons.IH[of "rs @ [\<lparr>style = Link h, offset = eoffset e, len = elen e\<rparr>]"]
            by (simp add: link_ok_def)
        qed
      next
        case nl: False
        show ?thesis
        proof (cases "t = ''IMG''")
          case True
          with Some t nl show ?thesis
            using Cons.IH[of "rs @ [\<lparr>style = Img ent, offset = eoffset e, len = elen e\<rparr>]"]
            by (simp add: link_ok_def)
        next
          case False
          with Some t nl show ?thesis using Cons.IH[of rs] by (simp add: link_ok_def)
        qed
      qed
    qed
  qed
qed


text \<open>The bubble sort keeps the ranges and leaves them in ascending order of their
  offsets.\<close>

lemma mset_bubble_pass [simp]: "mset (bubble_pass m xs) = mset xs"
  by (induction m xs rule: bubble_pass.induct) auto

lemma mset_bubble_outer [simp]: "mset (bubble_outer m xs) = mset xs"
  by (induction m xs rule: bubble_outer.induct) auto

lemma mset_bubble_sort [simp]: "mset (bubble_sort xs) = mset xs"
  by (simp add: bubble_sort_def)

lemma length_bubble_sort [simp]: "length (bubble_sort xs) = length xs"
  using mset_bubble_sort[of xs] by (metis size_mset)

lemma bubble_pass_length [simp]: "length (bubble_pass m xs) = length xs"
  by (induction m xs rule: bubble_pass.induct) auto

lemma bubble_pass_append:
  "m < length xs \<Longrightarrow> bubble_pass m (xs @ ys) = bubble_pass m xs @ ys"
proof (induction m xs rule: bubble_pass.induct)
  case (1 m x y zs)
  then show ?case by auto
qed simp_all

lemma bubble_pass_last:
  "xs \<noteq> [] \<Longrightarrow> length xs \<le> Suc m \<Longrightarrow>
   \<forall>x \<in> set xs. offset x \<le> offset (last (bubble_pass m xs))"
proof (induction m xs rule: bubble_pass.induct)
  case (1 m x y zs)
  show ?case
  proof (cases "offset x > offset y")
    case True
    have "\<forall>a \<in> set (x # zs). offset a \<le> offset (last (bubble_pass m (x # zs)))"
      using 1(1)[OF True] 1(4) by simp
    moreover have "bubble_pass m (x # zs) \<noteq> []" by (metis bubble_pass_length length_0_conv list.distinct(1))
    ultimately show ?thesis using True by auto
  next
    case False
    have "\<forall>a \<in> set (y # zs). offset a \<le> offset (last (bubble_pass m (y # zs)))"
      using 1(2)[OF False] 1(4) by simp
    moreover have "bubble_pass m (y # zs) \<noteq> []" by (metis bubble_pass_length length_0_conv list.distinct(1))
    ultimately show ?thesis using False by auto
  qed
qed (auto simp: le_Suc_eq length_Suc_conv)

lemma bubble_outer_sorted:
  "length hd0 = Suc k \<Longrightarrow> sorted (map offset tl0) \<Longrightarrow>
   (\<forall>a \<in> set hd0. \<forall>b \<in> set tl0. offset a \<le> offset b) \<Longrightarrow>
   sorted (map offset (bubble_outer k (hd0 @ tl0)))"
proof (induction k arbitrary: hd0 tl0)
  case 0
  then obtain x where "hd0 = [x]" by (cases hd0) auto
  with 0 show ?case by simp
next
  case (Suc k)
  let ?p = "bubble_pass (Suc k) hd0"
  have ne: "?p \<noteq> []" using Suc.prems(1) by (metis bubble_pass_length length_0_conv nat.distinct(1))
  have app: "bubble_pass (Suc k) (hd0 @ tl0) = ?p @ tl0"
    using Suc.prems(1) by (simp add: bubble_pass_append)
  have mx: "\<forall>x \<in> set hd0. offset x \<le> offset (last ?p)"
  proof -
    have "hd0 \<noteq> []" using Suc.prems(1) by auto
    moreover have "length hd0 \<le> Suc (Suc k)" using Suc.prems(1) by simp
    ultimately show ?thesis by (rule bubble_pass_last)
  qed
  have setp: "set ?p = set hd0" by (metis mset_bubble_pass set_mset_mset)
  let ?f = "butlast ?p"
  let ?b = "last ?p # tl0"
  have sp: "?p @ tl0 = ?f @ ?b" using ne by simp
  have lf: "length ?f = Suc k" using Suc.prems(1) by simp
  have lastin: "last ?p \<in> set hd0" using ne setp last_in_set by blast
  have sb: "sorted (map offset ?b)" using Suc.prems(2,3) lastin by auto
  have fin: "set ?f \<subseteq> set hd0" using setp by (metis in_set_butlastD subsetI)
  have le: "\<forall>a \<in> set ?f. \<forall>b \<in> set ?b. offset a \<le> offset b"
    using fin mx Suc.prems(3) by auto
  from Suc.IH[OF lf sb le] show ?case by (simp only: bubble_outer.simps app sp)
qed

lemma bubble_sort_sorted: "sorted (map offset (bubble_sort xs))"
proof (cases xs)
  case Nil
  then show ?thesis by (simp add: bubble_sort_def)
next
  case (Cons x ys)
  then have "length xs = Suc (length xs - 1)" by simp
  from bubble_outer_sorted[OF this, of "[]"] show ?thesis by (simp add: bubble_sort_def)
qed

text \<open>The two ways through \<^verbatim>\<open>add_text\<close>: with every link address present, and with one
  missing.\<close>

lemma add_text_ok:
  assumes ok: "list_all (link_ok (entity_map s)) (entityRanges b)"
  shows "snd (add_text ev s b par) =
           b\<lparr>inlineStyleRanges := bubble_sort (inlineStyleRanges b @
              entity_styles (entity_map s) (entityRanges b) @ step_range b)\<rparr>"
    and "btext b \<noteq> [] \<Longrightarrow> par = Some p \<or> par = None \<and> the_paragraph s = Some p \<Longrightarrow>
         body (fst (add_text ev s b par)) =
           append_runs (body s) p (char_runs ev (the_paragraph s \<noteq> None) (btext b)
             (bubble_sort (inlineStyleRanges b @
                entity_styles (entity_map s) (entityRanges b) @ step_range b)))"
proof -
  have f: "fold_entities (entity_map s) (entityRanges b) (inlineStyleRanges b) =
      (None, inlineStyleRanges b @ entity_styles (entity_map s) (entityRanges b))"
  proof -
    have "takeWhile (link_ok (entity_map s)) (entityRanges b) = entityRanges b"
      using ok by (simp add: takeWhile_eq_all_conv list_all_iff)
    note tw = this
    show ?thesis by (simp add: fold_entities_links ok tw)
  qed
  show "snd (add_text ev s b par) =
           b\<lparr>inlineStyleRanges := bubble_sort (inlineStyleRanges b @
              entity_styles (entity_map s) (entityRanges b) @ step_range b)\<rparr>"
    by (auto simp: add_text_def f Let_def step_range_def split: option.splits prod.splits)
  assume t: "btext b \<noteq> []" and p: "par = Some p \<or> par = None \<and> the_paragraph s = Some p"
  from p show "body (fst (add_text ev s b par)) =
           append_runs (body s) p (char_runs ev (the_paragraph s \<noteq> None) (btext b)
             (bubble_sort (inlineStyleRanges b @
                entity_styles (entity_map s) (entityRanges b) @ step_range b)))"
    using t
    by (auto simp: add_text_def f Let_def step_range_def prod.case_eq_if text_runs_by_char)
qed

lemma add_text_failed:
  assumes "\<not> list_all (link_ok (entity_map s)) (entityRanges b)"
  shows "add_text ev s b par =
     (s\<lparr>captured := captured s @ [KeyError]\<rparr>,
      b\<lparr>inlineStyleRanges := inlineStyleRanges b @
           entity_styles (entity_map s) (takeWhile (link_ok (entity_map s)) (entityRanges b))\<rparr>)"
  using assms by (simp add: add_text_def fold_entities_links)

lemma add_text_twice:
  fixes ev ev' :: env and s s' :: exporter and b :: block and par par' :: "pref option"
  assumes ok: "list_all (link_ok (entity_map s)) (entityRanges b)"
    and same: "entity_map s' = entity_map s"
  defines "added \<equiv> entity_styles (entity_map s) (entityRanges b) @ step_range b"
  defines "b1 \<equiv> snd (add_text ev s b par)"
  defines "b2 \<equiv> snd (add_text ev' s' b1 par')"
  shows "inlineStyleRanges b1 = bubble_sort (inlineStyleRanges b @ added)"
    and "inlineStyleRanges b2 = bubble_sort (inlineStyleRanges b1 @ added)"
    and "b1 = b\<lparr>inlineStyleRanges := inlineStyleRanges b1\<rparr>"
    and "b2 = b\<lparr>inlineStyleRanges := inlineStyleRanges b2\<rparr>"
    and "sorted (map offset (inlineStyleRanges b1))"
    and "sorted (map offset (inlineStyleRanges b2))"
    and "mset (inlineStyleRanges b1) = mset (inlineStyleRanges b) + mset added"
    and "mset (inlineStyleRanges b2) = mset (inlineStyleRanges b) + mset added + mset added"
    and "added \<noteq> [] \<Longrightarrow> b1 \<noteq> b \<and> b2 \<noteq> b1"
    and "btext b \<noteq> [] \<Longrightarrow> par = Some p \<or> par = None \<and> the_paragraph s = Some p \<Longrightarrow>
         body (fst (add_text ev s b par)) =
           append_runs (body s) p (char_runs ev (the_paragraph s \<noteq> None) (btext b) (inlineStyleRanges b1))"
    and "btext b \<noteq> [] \<Longrightarrow> par' = Some p' \<or> par' = None \<and> the_paragraph s' = Some p' \<Longrightarrow>
         body (fst (add_text ev' s' b1 par')) =
           append_runs (body s') p' (char_runs ev' (the_paragraph s' \<noteq> None) (btext b) (inlineStyleRanges b2))"
proof -
  have e1: "b1 = b\<lparr>inlineStyleRanges := bubble_sort (inlineStyleRanges b @ added)\<rparr>"
    unfolding b1_def added_def using add_text_ok(1)[OF ok] by simp
  show r1: "inlineStyleRanges b1 = bubble_sort (inlineStyleRanges b @ added)" by (subst e1) simp
  show "b1 = b\<lparr>inlineStyleRanges := inlineStyleRanges b1\<rparr>" by (subst (2) e1, subst e1) simp
  have f1: "entityRanges b1 = entityRanges b" "btext b1 = btext b" "step_range b1 = step_range b"
    by (subst e1, simp add: step_range_def)+
  have ok': "list_all (link_ok (entity_map s')) (entityRanges b1)" using ok by (simp add: same f1)
  have e2: "b2 = b1\<lparr>inlineStyleRanges := bubble_sort (inlineStyleRanges b1 @ added)\<rparr>"
    unfolding b2_def using add_text_ok(1)[OF ok', of ev' par'] by (simp add: f1 same added_def)
  show r2: "inlineStyleRanges b2 = bubble_sort (inlineStyleRanges b1 @ added)" by (subst e2) simp
  show "b2 = b\<lparr>inlineStyleRanges := inlineStyleRanges b2\<rparr>"
    by (subst (2) e2, subst e2, subst e1) simp
  show "sorted (map offset (inlineStyleRanges b1))" by (simp only: r1 bubble_sort_sorted)
  show "sorted (map offset (inlineStyleRanges b2))" by (simp only: r2 bubble_sort_sorted)
  show m1: "mset (inlineStyleRanges b1) = mset (inlineStyleRanges b) + mset added" by (simp add: r1)
  show m2: "mset (inlineStyleRanges b2) = mset (inlineStyleRanges b) + mset added + mset added"
    by (simp add: r2 m1)
  {
    assume ne: "added \<noteq> []"
    have l1: "length (inlineStyleRanges b1) = length (inlineStyleRanges b) + length added"
      by (simp add: r1)
    have l2: "length (inlineStyleRanges b2) = length (inlineStyleRanges b1) + length added"
      by (simp add: r2)
    from ne have "length added > 0" by simp
    with l1 l2 show "b1 \<noteq> b \<and> b2 \<noteq> b1" by (metis less_not_refl less_add_same_cancel1)
  }
  {
    assume t: "btext b \<noteq> []" and p: "par = Some p \<or> par = None \<and> the_paragraph s = Some p"
    from add_text_ok(2)[OF ok t p, of ev]
    show "body (fst (add_text ev s b par)) =
           append_runs (body s) p (char_runs ev (the_paragraph s \<noteq> None) (btext b) (inlineStyleRanges b1))"
      by (simp add: r1 added_def)
  }
  {
    assume t: "btext b \<noteq> []" and p: "par' = Some p' \<or> par' = None \<and> the_paragraph s' = Some p'"
    from t have t1: "btext b1 \<noteq> []" by (simp add: f1)
    from add_text_ok(2)[OF ok' t1 p, of ev']
    show "body (fst (add_text ev' s' b1 par')) =
           append_runs (body s') p' (char_runs ev' (the_paragraph s' \<noteq> None) (btext b) (inlineStyleRanges b2))"
      by (simp add: r2 f1 same added_def)
  }
qed

text \<open>
  Claim C9, as the code has it. \<^verbatim>\<open>add_text\<close> works on the block's own list of style ranges.
  When every LINK entity that the entity ranges of the block refer to has its address, the
  block comes back with that list holding the ranges it had, one range for each LINK or IMG
  entity range and, for a header-step block, the header-step range, in the order the bubble
  sort leaves, ascending by offset; the runs written for the text are styled by the ranges of
  that list. A second run on the block that came back appends the same ranges once more, so
  that the block is changed again whenever there is such a range, and the runs it writes are
  styled by the list with the duplicates, every range of it being applied to the characters
  it covers. When a LINK entity has no address, the KeyError ends \<^verbatim>\<open>add_text\<close> at that entity
  range: the block comes back with the ranges of the entity ranges before it appended, without
  a header-step range and unsorted, the exception is reported and no run is written.
\<close>

theorem add_text_mutates_block:
  "(list_all (link_ok (entity_map s)) (entityRanges b) \<and> entity_map s' = entity_map s \<and>
    added = entity_styles (entity_map s) (entityRanges b) @ step_range b \<and>
    b1 = snd (add_text ev s b par) \<and> b2 = snd (add_text ev' s' b1 par') \<longrightarrow>
      inlineStyleRanges b1 = bubble_sort (inlineStyleRanges b @ added) \<and>
      inlineStyleRanges b2 = bubble_sort (inlineStyleRanges b1 @ added) \<and>
      b1 = b\<lparr>inlineStyleRanges := inlineStyleRanges b1\<rparr> \<and>
      b2 = b\<lparr>inlineStyleRanges := inlineStyleRanges b2\<rparr> \<and>
      sorted (map offset (inlineStyleRanges b1)) \<and>
      sorted (map offset (inlineStyleRanges b2)) \<and>
      mset (inlineStyleRanges b1) = mset (inlineStyleRanges b) + mset added \<and>
      mset (inlineStyleRanges b2) = mset (inlineStyleRanges b) + mset added + mset added \<and>
      (added \<noteq> [] \<longrightarrow> b1 \<noteq> b \<and> b2 \<noteq> b1) \<and>
      (btext b \<noteq> [] \<and> (par = Some p \<or> par = None \<and> the_paragraph s = Some p) \<longrightarrow>
         body (fst (add_text ev s b par)) =
           append_runs (body s) p
             (char_runs ev (the_paragraph s \<noteq> None) (btext b) (inlineStyleRanges b1))) \<and>
      (btext b \<noteq> [] \<and> (par' = Some p' \<or> par' = None \<and> the_paragraph s' = Some p') \<longrightarrow>
         body (fst (add_text ev' s' b1 par')) =
           append_runs (body s') p'
             (char_runs ev' (the_paragraph s' \<noteq> None) (btext b) (inlineStyleRanges b2)))) \<and>
   (\<not> list_all (link_ok (entity_map s)) (entityRanges b) \<longrightarrow>
      add_text ev s b par =
        (s\<lparr>captured := captured s @ [KeyError]\<rparr>,
         b\<lparr>inlineStyleRanges := inlineStyleRanges b @
              entity_styles (entity_map s) (takeWhile (link_ok (entity_map s)) (entityRanges b))\<rparr>))"
proof (intro conjI impI)
  assume a: "list_all (link_ok (entity_map s)) (entityRanges b) \<and> entity_map s' = entity_map s \<and>
    added = entity_styles (entity_map s) (entityRanges b) @ step_range b \<and>
    b1 = snd (add_text ev s b par) \<and> b2 = snd (add_text ev' s' b1 par')"
  then have ok: "list_all (link_ok (entity_map s)) (entityRanges b)"
    and same: "entity_map s' = entity_map s"
    and d: "added = entity_styles (entity_map s) (entityRanges b) @ step_range b"
      "b1 = snd (add_text ev s b par)" "b2 = snd (add_text ev' s' b1 par')"
    by simp_all
  note t = add_text_twice [OF ok same]
  show "inlineStyleRanges b1 = bubble_sort (inlineStyleRanges b @ added)"
    unfolding d by (rule t(1))
  show "inlineStyleRanges b2 = bubble_sort (inlineStyleRanges b1 @ added)"
    unfolding d by (rule t(2))
  show "b1 = b\<lparr>inlineStyleRanges := inlineStyleRanges b1\<rparr>"
    unfolding d by (rule t(3))
  show "b2 = b\<lparr>inlineStyleRanges := inlineStyleRanges b2\<rparr>"
    unfolding d by (rule t(4))
  show "sorted (map offset (inlineStyleRanges b1))"
    unfolding d by (rule t(5))
  show "sorted (map offset (inlineStyleRanges b2))"
    unfolding d by (rule t(6))
  show "mset (inlineStyleRanges b1) = mset (inlineStyleRanges b) + mset added"
    unfolding d by (rule t(7))
  show "mset (inlineStyleRanges b2) = mset (inlineStyleRanges b) + mset added + mset added"
    unfolding d by (rule t(8))
  {
    assume "added \<noteq> []"
    then have ne: "entity_styles (entity_map s) (entityRanges b) @ step_range b \<noteq> []"
      by (simp only: d(1) simp_thms)
    have "snd (add_text ev s b par) \<noteq> b \<and>
          snd (add_text ev' s' (snd (add_text ev s b par)) par') \<noteq> snd (add_text ev s b par)"
      by (rule t(9)[OF ne])
    then show "b1 \<noteq> b" and "b2 \<noteq> b1"
      unfolding d by simp_all
  }
  {
    assume "btext b \<noteq> [] \<and> (par = Some p \<or> par = None \<and> the_paragraph s = Some p)"
    then have h: "btext b \<noteq> []" "par = Some p \<or> par = None \<and> the_paragraph s = Some p"
      by simp_all
    show "body (fst (add_text ev s b par)) =
           append_runs (body s) p
             (char_runs ev (the_paragraph s \<noteq> None) (btext b) (inlineStyleRanges b1))"
      unfolding d by (rule t(10)[OF h])
  }
  {
    assume "btext b \<noteq> [] \<and> (par' = Some p' \<or> par' = None \<and> the_paragraph s' = Some p')"
    then have h: "btext b \<noteq> []" "par' = Some p' \<or> par' = None \<and> the_paragraph s' = Some p'"
      by simp_all
    show "body (fst (add_text ev' s' b1 par')) =
           append_runs (body s') p'
             (char_runs ev' (the_paragraph s' \<noteq> None) (btext b) (inlineStyleRanges b2))"
      unfolding d by (rule t(11)[OF h])
  }
next
  assume "\<not> list_all (link_ok (entity_map s)) (entityRanges b)"
  then show "add_text ev s b par =
        (s\<lparr>captured := captured s @ [KeyError]\<rparr>,
         b\<lparr>inlineStyleRanges := inlineStyleRanges b @
              entity_styles (entity_map s) (takeWhile (link_ok (entity_map s)) (entityRanges b))\<rparr>)"
    by (rule add_text_failed)
qed

text \<open>The header-step block with one bold range and one link: after one run it has three
  ranges, after two runs five, the link and the header-step range twice; the second run
  writes the two characters again, the first as a link and both bold. With a link entity
  that has no address the block comes back as it was.\<close>

theorem add_text_mutates_block_witness:
  "list_all (link_ok (entity_map link_state)) (entityRanges link_block) \<and>
   inlineStyleRanges (snd (add_text ex_env link_state link_block None)) =
     [\<lparr>style = Link ''http://h'', offset = 0, len = 1\<rparr>,
      \<lparr>style = Tok ''header-step'', offset = 0, len = 2\<rparr>,
      \<lparr>style = Tok ''BOLD'', offset = 1, len = 1\<rparr>] \<and>
   snd (add_text ex_env link_state link_block None) \<noteq> link_block \<and>
   inlineStyleRanges (snd (add_text ex_env (fst (add_text ex_env link_state link_block None))
       (snd (add_text ex_env link_state link_block None)) None)) =
     [\<lparr>style = Link ''http://h'', offset = 0, len = 1\<rparr>,
      \<lparr>style = Tok ''header-step'', offset = 0, len = 2\<rparr>,
      \<lparr>style = Link ''http://h'', offset = 0, len = 1\<rparr>,
      \<lparr>style = Tok ''header-step'', offset = 0, len = 2\<rparr>,
      \<lparr>style = Tok ''BOLD'', offset = 1, len = 1\<rparr>] \<and>
   body (fst (add_text ex_env (fst (add_text ex_env link_state link_block None))
       (snd (add_text ex_env link_state link_block None)) None)) =
     [Paragraph ''Normal''
       [(step_run CHR ''a'')\<lparr>rtext := [], hyperlink := [(''http://h'', ''a'')]\<rparr>, step_run CHR ''b'',
        (step_run CHR ''a'')\<lparr>rtext := [], hyperlink := [(''http://h'', ''a'')]\<rparr>, step_run CHR ''b'']] \<and>
   \<not> list_all (link_ok (entity_map nohref_state)) (entityRanges link_block) \<and>
   add_text ex_env nohref_state link_block None = (nohref_state\<lparr>captured := [KeyError]\<rparr>, link_block)"
proof -
  let ?l = "\<lparr>style = Link ''http://h'', offset = 0, len = 1\<rparr>"
  let ?h = "\<lparr>style = Tok ''header-step'', offset = 0, len = 2\<rparr>"
  let ?b = "\<lparr>style = Tok ''BOLD'', offset = 1, len = 1\<rparr>"
  let ?s1 = "fst (add_text ex_env link_state link_block None)"
  let ?b1 = "snd (add_text ex_env link_state link_block None)"
  let ?b2 = "snd (add_text ex_env ?s1 ?b1 None)"
  let ?ra = "(step_run CHR ''a'')\<lparr>rtext := [], hyperlink := [(''http://h'', ''a'')]\<rparr>"
  have ok: "list_all (link_ok (entity_map link_state)) (entityRanges link_block)" by code_simp
  have same: "entity_map ?s1 = entity_map link_state" by simp
  have a: "[?l, ?h] = entity_styles (entity_map link_state) (entityRanges link_block) @ step_range link_block"
    by code_simp
  have r0: "inlineStyleRanges link_block = [?b]" "btext link_block = ''ab''" by code_simp+
  have s1: "bubble_sort ([?b] @ [?l, ?h]) = [?l, ?h, ?b]" by code_simp
  have s2: "bubble_sort ([?l, ?h, ?b] @ [?l, ?h]) = [?l, ?h, ?l, ?h, ?b]" by code_simp
  have ne: "btext link_block \<noteq> []" by code_simp
  have p: "the_paragraph link_state = Some (InBody 0)" by code_simp
  then have p': "the_paragraph ?s1 = Some (InBody 0)" by simp
  have hp: "(the_paragraph ?s1 \<noteq> None) = True" using p' by simp
  have cr: "char_runs ex_env True ''ab'' [?l, ?h, ?l, ?h, ?b] = [?ra, step_run CHR ''b'']"
    by code_simp
  have b1: "body ?s1 = [Paragraph ''Normal'' [?ra, step_run CHR ''b'']]" by code_simp
  note t = add_text_mutates_block [where s = link_state and b = link_block and ev = ex_env
      and par = None and s' = ?s1 and ev' = ex_env and par' = None and added = "[?l, ?h]"
      and ?b1.0 = ?b1 and ?b2.0 = ?b2 and p = "InBody 0" and p' = "InBody 0"]
  from t ok same a have c1: "inlineStyleRanges ?b1 = bubble_sort (inlineStyleRanges link_block @ [?l, ?h])"
    and c2: "inlineStyleRanges ?b2 = bubble_sort (inlineStyleRanges ?b1 @ [?l, ?h])"
    and c3: "?b1 \<noteq> link_block"
    and c4: "body (fst (add_text ex_env ?s1 ?b1 None)) =
       append_runs (body ?s1) (InBody 0)
         (char_runs ex_env (the_paragraph ?s1 \<noteq> None) (btext link_block) (inlineStyleRanges ?b2))"
    using ne p' by blast+
  have d1: "inlineStyleRanges ?b1 = [?l, ?h, ?b]" by (simp only: c1 r0 s1)
  have d2: "inlineStyleRanges ?b2 = [?l, ?h, ?l, ?h, ?b]" by (simp only: c2 d1 s2)
  have d4: "body (fst (add_text ex_env ?s1 ?b1 None)) =
      [Paragraph ''Normal'' [?ra, step_run CHR ''b'', ?ra, step_run CHR ''b'']]"
    by (simp only: c4 d2 r0 hp b1 cr) simp
  have nok: "\<not> list_all (link_ok (entity_map nohref_state)) (entityRanges link_block)" by code_simp
  have tw: "entity_styles (entity_map nohref_state)
      (takeWhile (link_ok (entity_map nohref_state)) (entityRanges link_block)) = []"
    "captured nohref_state = []"
    by code_simp+
  from add_text_mutates_block [where s = nohref_state and b = link_block and ev = ex_env and par = None] nok
  have "add_text ex_env nohref_state link_block None =
        (nohref_state\<lparr>captured := captured nohref_state @ [KeyError]\<rparr>,
         link_block\<lparr>inlineStyleRanges := inlineStyleRanges link_block @
              entity_styles (entity_map nohref_state)
                (takeWhile (link_ok (entity_map nohref_state)) (entityRanges link_block))\<rparr>)"
    by blast
  then have d5: "add_text ex_env nohref_state link_block None = (nohref_state\<lparr>captured := [KeyError]\<rparr>, link_block)"
    by (simp add: tw)
  from ok d1 c3 d2 d4 nok d5 show ?thesis by blast
qed

text \<open>A header-step block whose link entity has no address: \<^verbatim>\<open>add_text\<close> leaves the block
  as it is, once and twice, with no header-step range appended, and writes no run.\<close>

theorem add_text_missing_href_counterexample:
  "btype link_block = ''header-step'' \<and>
   map_of (entity_map nohref_state) (ekey (hd (entityRanges link_block))) =
     Some \<lparr>etype = Some ''LINK'', estyle = None, ehref = None\<rparr> \<and>
   add_text ex_env nohref_state link_block None = (nohref_state\<lparr>captured := [KeyError]\<rparr>, link_block) \<and>
   add_text ex_env (fst (add_text ex_env nohref_state link_block None))
       (snd (add_text ex_env nohref_state link_block None)) None =
     (nohref_state\<lparr>captured := [KeyError, KeyError]\<rparr>, link_block) \<and>
   body (nohref_state\<lparr>captured := [KeyError, KeyError]\<rparr>) = [Paragraph ''Normal'' []]"
  by code_simp

section \<open>A run of cells\<close>

lemma append_runs_Nil [simp]: "append_runs els p [] = els"
  by (cases p) (auto split: element.splits simp: list_update_same_conv)

lemma add_text_cell_body:
  "body (fst (add_text ev s b (Some p))) = append_runs (body s) p (block_runs ev s b)"
  by (auto simp: add_text_def block_runs_def Let_def split: prod.splits option.splits)

lemma block_runs_cong:
  "entity_map s = entity_map s0 \<Longrightarrow> the_paragraph s = the_paragraph s0 \<Longrightarrow>
   block_runs ev s b = block_runs ev s0 b"
  by (auto simp: block_runs_def split: prod.splits option.splits)

lemma append_runs_last_table:
  "r < length rws \<Longrightarrow> col < length (rws ! r) \<Longrightarrow>
   append_runs (els @ [Table c rws]) (InCell (length els) r col) rs =
     els @ [Table c (rws[r := (rws ! r)[col := rws ! r ! col @ rs]])]"
  by simp


lemma cell_open_keeps_table:
  assumes "doc_version s \<noteq> 3" "table s = Some t"
    "index_of (keys s) (bkey b) = Some j" "py_nth (article_blocks s) (int j - 1) = Some old"
    "btype old = ''cell''" "1 \<le> j" "bdepth old = bdepth b"
  shows "cell_open s b = (None, s)"
  using assms by (simp add: cell_open_def Let_def)

lemma cell_open_fresh:
  assumes "doc_version s \<noteq> 3"
    "index_of (keys s) (bkey b) = Some j" "py_nth (article_blocks s) (int j - 1) = Some old"
    "btype old \<noteq> ''cell'' \<or> j = 0 \<or> bdepth old \<noteq> bdepth b"
  shows "cell_open s b = (None, s\<lparr>table := Some (length (body s)),
           body := body s @ [new_table 1 (columns_for_depth (bdepth b))]\<rparr>)"
  using assms
  by (auto simp: cell_open_def Let_def table_for_depth_def open_table_def columns_for_depth_def)

lemma columns_pos: "1 \<le> columns_for_depth d"
  by (simp add: columns_for_depth_def)

lemma cell_write_at:
  assumes t: "table s = Some (length els)" and bd: "body s = els @ [Table c (full @ [lr])]"
    and lr: "length lr = c" and lt: "cells s < c"
  shows "snd (cell_write ev s b) =
     s\<lparr>body := els @ [Table c (full @ [lr[cells s := lr ! cells s @ block_runs ev s b]])],
       captured := captured (fst (add_text ev s b (Some (InCell (length els) (length full) (cells s))))),
       cells := cells s + 1\<rparr>"
proof -
  let ?p = "InCell (length els) (length full) (cells s)"
  have w: "snd (cell_write ev s b) = (fst (add_text ev s b (Some ?p)))\<lparr>cells := cells s + 1\<rparr>"
    using t bd lr lt by (simp add: cell_write_def Let_def nth_append)
  have b': "body (fst (add_text ev s b (Some ?p))) =
      els @ [Table c (full @ [lr[cells s := lr ! cells s @ block_runs ev s b]])]"
    using bd lr lt by (simp add: add_text_cell_body nth_append)
  show ?thesis
    by (subst w, subst add_text_frame) (simp add: b')
qed

lemma cell_write_overflow:
  assumes t: "table s = Some (length els)" and bd: "body s = els @ [Table c (full @ [lr])]"
    and lr: "length lr = c" and ge: "cells s = c" and c: "1 \<le> c"
  shows "snd (cell_write ev s b) =
     s\<lparr>body := els @ [Table c (full @ [lr, (replicate c [])[0 := block_runs ev s b]])],
       captured := captured (fst (add_text ev (s\<lparr>cells := 0, body := els @ [Table c (full @ [lr, replicate c []])]\<rparr>) b
            (Some (InCell (length els) (Suc (length full)) 0)))),
       cells := 1\<rparr>"
proof -
  let ?s1 = "s\<lparr>cells := 0, body := els @ [Table c (full @ [lr, replicate c []])]\<rparr>"
  let ?p = "InCell (length els) (Suc (length full)) 0"
  have s1: "s\<lparr>cells := 0, body := (body s)[length els := add_row (body s ! length els)]\<rparr> = ?s1"
    using bd by simp
  have w: "snd (cell_write ev s b) = (fst (add_text ev ?s1 b (Some ?p)))\<lparr>cells := 1\<rparr>"
    using t bd lr ge c by (simp add: cell_write_def Let_def nth_append s1)
  have br: "\<And>bd. block_runs ev (s\<lparr>cells := 0, body := bd\<rparr>) b = block_runs ev s b"
    by (rule block_runs_cong) simp_all
  have b': "body (fst (add_text ev ?s1 b (Some ?p))) =
      els @ [Table c (full @ [lr, (replicate c [])[0 := block_runs ev s b]])]"
    using c by (simp add: add_text_cell_body nth_append br list_update_append)
  show ?thesis
    by (subst w, subst add_text_frame) (simp add: b')
qed


lemma capture_more [simp]:
  "entity_map (capture r) = entity_map (snd r)" "the_paragraph (capture r) = the_paragraph (snd r)"
  by (cases r; cases "fst r"; simp add: capture_def)+

lemma nth_of_drop_replicate:
  "drop n lr = replicate (c - n) x \<Longrightarrow> n < c \<Longrightarrow> length lr = c \<Longrightarrow> lr ! n = x"
  by (metis hd_drop_conv_nth hd_replicate replicate_empty zero_less_diff less_numeral_extra(3))

lemma drop_Suc_of_drop_replicate:
  "drop n lr = replicate (c - n) x \<Longrightarrow> drop (Suc n) lr = replicate (c - Suc n) x"
proof -
  assume a: "drop n lr = replicate (c - n) x"
  have "drop (Suc n) lr = drop 1 (drop n lr)" by simp
  also have "\<dots> = replicate (c - n - 1) x" by (simp add: a)
  finally show ?thesis by simp
qed

lemma inv_step:
  assumes inv: "run_inv ev s0 c dn s" and legacy: "doc_version s0 \<noteq> 3" and c: "1 \<le> c"
    and idx: "index_of (keys s0) (bkey b) = Some j"
    and old: "py_nth (article_blocks s0) (int j - 1) = Some old"
    and cont: "btype old = ''cell''" "1 \<le> j" "bdepth old = bdepth b"
  shows "run_inv ev s0 c (dn @ [b]) (add_table_cell ev s b)"
proof -
  from inv obtain full lr where
    f: "entity_map s = entity_map s0" "the_paragraph s = the_paragraph s0" "keys s = keys s0"
       "article_blocks s = article_blocks s0" "doc_version s = doc_version s0"
    and t: "table s = Some (length (body s0))" and c1: "1 \<le> cells s" and c2: "cells s \<le> c"
    and bd: "body s = body s0 @ [Table c (full @ [lr])]"
    and fl: "\<forall>r \<in> set full. length r = c" and lr: "length lr = c"
    and cont': "map (block_runs ev s0) dn = concat full @ take (cells s) lr"
    and pad: "drop (cells s) lr = replicate (c - cells s) []"
    unfolding run_inv_def by blast
  have op: "cell_open s b = (None, s)"
    using cell_open_keeps_table[of s _ b j old] legacy t idx old cont f by simp
  have eq: "add_table_cell ev s b = capture (cell_write ev s b)"
    by (simp add: add_table_cell_def op)
  have br: "block_runs ev s b = block_runs ev s0 b" using f by (intro block_runs_cong) simp_all
  show ?thesis
  proof (cases "cells s < c")
    case True
    note w = cell_write_at[OF t bd lr True, of ev b]
    have e: "lr ! cells s = []" using pad True lr by (rule nth_of_drop_replicate)
    let ?lr = "lr[cells s := block_runs ev s0 b]"
    have tk: "take (Suc (cells s)) ?lr = take (cells s) lr @ [block_runs ev s0 b]"
      using True lr by (simp add: take_Suc_conv_app_nth)
    have dr: "drop (Suc (cells s)) ?lr = replicate (c - Suc (cells s)) []"
      using drop_Suc_of_drop_replicate[OF pad] by simp
    show ?thesis
      unfolding run_inv_def eq
      using f t True fl lr cont' tk dr
      by (auto simp: w e br intro!: exI[of _ full] exI[of _ ?lr])
  next
    case False
    with c2 have ge: "cells s = c" by simp
    note w = cell_write_overflow[OF t bd lr ge c, of ev b]
    let ?lr = "(replicate c [])[0 := block_runs ev s0 b]"
    have tk: "take (Suc 0) ?lr = [block_runs ev s0 b]" using c by (cases c) simp_all
    have dr: "drop (Suc 0) ?lr = replicate (c - Suc 0) []" using c by (cases c) simp_all
    have full': "concat (full @ [lr]) = concat full @ take (cells s) lr" using ge lr by simp
    show ?thesis
      unfolding run_inv_def eq
      using f t c fl lr cont' tk dr full'
      by (auto simp: w br intro!: exI[of _ "full @ [lr]"] exI[of _ ?lr])
  qed
qed

lemma inv_first:
  assumes legacy: "doc_version s \<noteq> 3" and z: "cells s = 0"
    and idx: "index_of (keys s) (bkey b) = Some j"
    and old: "py_nth (article_blocks s) (int j - 1) = Some old"
    and fresh: "btype old \<noteq> ''cell'' \<or> j = 0 \<or> bdepth old \<noteq> bdepth b"
  shows "run_inv ev s (columns_for_depth (bdepth b)) [b] (add_table_cell ev s b)"
proof -
  let ?c = "columns_for_depth (bdepth b)"
  let ?s1 = "s\<lparr>table := Some (length (body s)), body := body s @ [new_table 1 ?c]\<rparr>"
  have op: "cell_open s b = (None, ?s1)" using cell_open_fresh[OF legacy idx old fresh] .
  have eq: "add_table_cell ev s b = capture (cell_write ev ?s1 b)"
    by (simp add: add_table_cell_def op)
  have c: "1 \<le> ?c" by (rule columns_pos)
  have t: "table ?s1 = Some (length (body s))" by simp
  have bd: "body ?s1 = body s @ [Table ?c ([] @ [replicate ?c []])]" by (simp add: new_table_def)
  have lt: "cells ?s1 < ?c" using z c by simp
  note w = cell_write_at[OF t bd _ lt, of ev b, simplified]
  have br: "\<And>t bd. block_runs ev (s\<lparr>table := t, body := bd\<rparr>) b = block_runs ev s b"
    by (intro block_runs_cong) simp_all
  let ?lr = "(replicate ?c [])[0 := block_runs ev s b]"
  have tk: "take (Suc 0) ?lr = [block_runs ev s b]" using c by (cases ?c) simp_all
  have dr: "drop (Suc 0) ?lr = replicate (?c - Suc 0) []" using c by (cases ?c) simp_all
  have z0: "(replicate ?c []) ! 0 = ([]::run list)" using c by simp
  show ?thesis
    unfolding run_inv_def eq
    using c tk dr z
    by (auto simp: w br z0 intro!: exI[of _ "[]"] exI[of _ ?lr])
qed


lemma dispatch_cell: "btype b = ''cell'' \<Longrightarrow> dispatch ev s b = (add_table_cell ev s b)\<lparr>depth_level := 1\<rparr>"
  by (simp add: dispatch_def handle_def)

lemma run_inv_depth_level [simp]: "run_inv ev s0 c dn (s\<lparr>depth_level := x\<rparr>) = run_inv ev s0 c dn s"
  by (simp add: run_inv_def)

lemma lookback_block:
  assumes "i < length blocks"
  shows "py_nth (blocks @ [terminal_block]) (int i - 1) =
           Some (if i = 0 then terminal_block else blocks ! (i - 1))"
  using assms by (auto simp: py_nth_def Let_def nth_append nat_diff_distrib)

lemma terminal_not_cell [simp]: "btype terminal_block \<noteq> ''cell''"
  by (simp add: terminal_block_def)

lemma cell_run_inv:
  assumes legacy: "doc_version s \<noteq> 3" and ks: "keys s = map bkey blocks"
    and abs: "article_blocks s = blocks @ [terminal_block]" and dist: "distinct (map bkey blocks)"
    and z: "cells s = 0" and len: "p + n \<le> length blocks"
    and cells: "\<forall>i. p \<le> i \<and> i < p + n \<longrightarrow> btype (blocks ! i) = ''cell'' \<and> bdepth (blocks ! i) = d"
    and fresh: "p = 0 \<or> btype (blocks ! (p - 1)) \<noteq> ''cell'' \<or> bdepth (blocks ! (p - 1)) \<noteq> d"
  shows "m < n \<Longrightarrow> run_inv ev s (columns_for_depth d) (take (Suc m) (drop p blocks))
           (foldl (dispatch ev) s (take (Suc m) (drop p blocks)))"
proof (induction m)
  case 0
  let ?b = "blocks ! p"
  have pl: "p < length blocks" using 0 len by simp
  have tk: "take (Suc 0) (drop p blocks) = [?b]" using pl by (simp add: take_Suc_conv_app_nth)
  have ty: "btype ?b = ''cell''" "bdepth ?b = d" using cells 0 by auto
  have idx: "index_of (keys s) (bkey ?b) = Some p"
    using index_of_distinct[OF dist, of p] pl by (simp add: ks)
  have old: "py_nth (article_blocks s) (int p - 1) = Some (if p = 0 then terminal_block else blocks ! (p - 1))"
    using lookback_block[OF pl] by (simp add: abs)
  have fr: "btype (if p = 0 then terminal_block else blocks ! (p - 1)) \<noteq> ''cell'' \<or> p = 0 \<or>
            bdepth (if p = 0 then terminal_block else blocks ! (p - 1)) \<noteq> bdepth ?b"
    using fresh ty by auto
  from inv_first[OF legacy z idx old fr, of ev] show ?case
    by (simp add: tk dispatch_cell ty)
next
  case (Suc m)
  let ?b = "blocks ! (p + Suc m)"
  let ?dn = "take (Suc m) (drop p blocks)"
  have pl: "p + Suc m < length blocks" using Suc.prems len by simp
  have tk: "take (Suc (Suc m)) (drop p blocks) = ?dn @ [?b]"
    using pl by (simp add: take_Suc_conv_app_nth)
  have ty: "btype ?b = ''cell''" "bdepth ?b = d" using cells Suc.prems by auto
  have tyo: "btype (blocks ! (p + m)) = ''cell''" "bdepth (blocks ! (p + m)) = d"
    using cells Suc.prems by auto
  have idx: "index_of (keys s) (bkey ?b) = Some (p + Suc m)"
    using index_of_distinct[OF dist, of "p + Suc m"] pl by (simp add: ks)
  have old: "py_nth (article_blocks s) (int (p + Suc m) - 1) = Some (blocks ! (p + m))"
    using lookback_block[OF pl] by (simp add: abs)
  have inv: "run_inv ev s (columns_for_depth d) ?dn (foldl (dispatch ev) s ?dn)"
    using Suc by simp
  from inv_step[OF inv legacy columns_pos idx old tyo(1)] tyo ty
  have "run_inv ev s (columns_for_depth d) (?dn @ [?b]) (add_table_cell ev (foldl (dispatch ev) s ?dn) ?b)"
    by simp
  then show ?case
    by (simp only: tk foldl_append foldl_Cons foldl_Nil dispatch_cell[OF ty(1)] run_inv_depth_level)
qed

lemma length_concat_rows: "\<forall>r \<in> set rws. length r = c \<Longrightarrow> length (concat rws) = length rws * c"
  by (induction rws) simp_all

lemma rows_count:
  assumes "1 \<le> k" "k \<le> c"
  shows "(l * c + k + c - 1) div c = Suc l"
proof -
  have "l * c + k + c - 1 = (k - 1) + Suc l * c" using assms by simp
  moreover have "((k - 1) + Suc l * c) div c = Suc l + (k - 1) div c"
    using assms by (intro div_mult_self1) simp
  moreover have "(k - 1) div c = 0" using assms by simp
  ultimately show ?thesis by simp
qed

lemma cell_run_state:
  assumes "doc_version s \<noteq> 3" and "keys s = map bkey blocks"
    and "article_blocks s = blocks @ [terminal_block]" and "distinct (map bkey blocks)"
    and "cells s = 0" and "1 \<le> n" and "p + n \<le> length blocks"
    and "\<forall>i. p \<le> i \<and> i < p + n \<longrightarrow> btype (blocks ! i) = ''cell'' \<and> bdepth (blocks ! i) = d"
    and "p = 0 \<or> btype (blocks ! (p - 1)) \<noteq> ''cell'' \<or> bdepth (blocks ! (p - 1)) \<noteq> d"
  shows "\<exists>rws. body (foldl (dispatch ev) s (take n (drop p blocks))) =
            body s @ [Table (columns_for_depth d) rws] \<and>
          length rws = (n + columns_for_depth d - 1) div columns_for_depth d \<and>
          (\<forall>r \<in> set rws. length r = columns_for_depth d) \<and>
          concat rws = map (block_runs ev s) (take n (drop p blocks)) @
            replicate (length rws * columns_for_depth d - n) []"
proof -
  let ?c = "columns_for_depth d"
  let ?run = "take n (drop p blocks)"
  let ?s = "foldl (dispatch ev) s ?run"
  obtain m where m: "n = Suc m" using assms(6) by (cases n) auto
  have "run_inv ev s ?c ?run ?s"
    using cell_run_inv[OF assms(1-5) assms(7-9), of m ev] m by simp
  then obtain full lr where c1: "1 \<le> cells ?s" and c2: "cells ?s \<le> ?c"
    and bd: "body ?s = body s @ [Table ?c (full @ [lr])]"
    and fl: "\<forall>r \<in> set full. length r = ?c" and lr: "length lr = ?c"
    and cont: "map (block_runs ev s) ?run = concat full @ take (cells ?s) lr"
    and pad: "drop (cells ?s) lr = replicate (?c - cells ?s) []"
    unfolding run_inv_def by blast
  have ln: "length ?run = n" using assms(7) by simp
  have "length (map (block_runs ev s) ?run) = length (concat full @ take (cells ?s) lr)"
    by (simp only: cont)
  then have n: "n = length full * ?c + cells ?s"
    using ln c2 lr length_concat_rows[OF fl] by simp
  have rows: "length (full @ [lr]) = (n + ?c - 1) div ?c"
    using rows_count[OF c1 c2, of "length full"] n by simp
  have all: "\<forall>r \<in> set (full @ [lr]). length r = ?c" using fl lr by simp
  have "concat (full @ [lr]) = concat full @ take (cells ?s) lr @ drop (cells ?s) lr" by simp
  also have "\<dots> = map (block_runs ev s) ?run @ replicate (?c - cells ?s) []"
    by (simp only: pad cont append_assoc)
  also have "?c - cells ?s = length (full @ [lr]) * ?c - n" using n c2 by simp
  finally have cc: "concat (full @ [lr]) = map (block_runs ev s) ?run @ replicate (length (full @ [lr]) * ?c - n) []" .
  from bd rows all cc show ?thesis by blast
qed

text \<open>The handlers leave the lists of the article and its version as the preparation of
  the article has set them.\<close>

lemma add_figure_lists [simp]:
  "article_blocks (add_figure ev s b) = article_blocks s" "keys (add_figure ev s b) = keys s"
  "doc_version (add_figure ev s b) = doc_version s"
  by (simp_all add: add_figure_def)

lemma add_block_link_lists [simp]:
  "article_blocks (add_block_link s b) = article_blocks s" "keys (add_block_link s b) = keys s"
  "doc_version (add_block_link s b) = doc_version s"
  by (simp_all add: add_block_link_def Let_def)

lemma add_gist_lists [simp]:
  "article_blocks (add_gist s b) = article_blocks s" "keys (add_gist s b) = keys s"
  "doc_version (add_gist s b) = doc_version s"
  by (simp_all add: add_gist_def Let_def)

lemma add_block_code_lists [simp]:
  "article_blocks (add_block_code s b) = article_blocks s" "keys (add_block_code s b) = keys s"
  "doc_version (add_block_code s b) = doc_version s"
  by (simp_all add: add_block_code_def Let_def)

lemma add_video_lists [simp]:
  "article_blocks (add_video ev s b) = article_blocks s" "keys (add_video ev s b) = keys s"
  "doc_version (add_video ev s b) = doc_version s"
  by (simp_all add: add_video_def Let_def split: option.splits)

lemma add_blockquote_lists [simp]:
  "article_blocks (add_blockquote ev s b) = article_blocks s" "keys (add_blockquote ev s b) = keys s"
  "doc_version (add_blockquote ev s b) = doc_version s"
  by (simp_all add: add_blockquote_def Let_def)

lemma add_headers_lists [simp]:
  "article_blocks (snd (add_headers s b)) = article_blocks s" "keys (snd (add_headers s b)) = keys s"
  "doc_version (snd (add_headers s b)) = doc_version s"
  by (simp_all add: add_headers_def)

lemma add_mdtable_lists [simp]:
  "article_blocks (snd (add_mdtable s b)) = article_blocks s" "keys (snd (add_mdtable s b)) = keys s"
  "doc_version (snd (add_mdtable s b)) = doc_version s"
  by (simp_all add: add_mdtable_def Let_def prod.case_eq_if split: list.splits)

lemma add_list_item_lists [simp]:
  "article_blocks (fst (add_list_item ev s b)) = article_blocks s"
  "keys (fst (add_list_item ev s b)) = keys s"
  "doc_version (fst (add_list_item ev s b)) = doc_version s"
  by (simp_all add: add_list_item_def Let_def split: option.splits)

lemma add_dict_lists [simp]:
  "article_blocks (add_dict ev s b) = article_blocks s" "keys (add_dict ev s b) = keys s"
  "doc_version (add_dict ev s b) = doc_version s"
  by (simp_all add: add_dict_def Let_def split: option.splits)

lemma add_header_step_lists [simp]:
  "article_blocks (fst (add_header_step ev s b)) = article_blocks s"
  "keys (fst (add_header_step ev s b)) = keys s"
  "doc_version (fst (add_header_step ev s b)) = doc_version s"
  by (simp_all add: add_header_step_def Let_def)

lemma cell_open_lists [simp]:
  "article_blocks (snd (cell_open s b)) = article_blocks s" "keys (snd (cell_open s b)) = keys s"
  "doc_version (snd (cell_open s b)) = doc_version s"
  by (simp_all add: cell_open_def Let_def table_for_depth_def open_table_def split: option.splits)

lemma cell_write_lists [simp]:
  "article_blocks (snd (cell_write ev s b)) = article_blocks s" "keys (snd (cell_write ev s b)) = keys s"
  "doc_version (snd (cell_write ev s b)) = doc_version s"
  by (simp_all add: cell_write_def Let_def split: option.splits)

lemma add_table_cell_lists [simp]:
  "article_blocks (add_table_cell ev s b) = article_blocks s" "keys (add_table_cell ev s b) = keys s"
  "doc_version (add_table_cell ev s b) = doc_version s"
  using cell_open_lists[of s b] cell_write_lists[of ev "snd (cell_open s b)" b]
  by (simp_all add: add_table_cell_def prod.case_eq_if split: option.splits)

lemma handle_lists:
  "article_blocks (snd (handle ev s b)) = article_blocks s" "keys (snd (handle ev s b)) = keys s"
  "doc_version (snd (handle ev s b)) = doc_version s"
  by (simp_all add: handle_def Let_def)

lemma dispatch_lists [simp]:
  "article_blocks (dispatch ev s b) = article_blocks s" "keys (dispatch ev s b) = keys s"
  "doc_version (dispatch ev s b) = doc_version s"
  using handle_lists[of ev s b]
  by (simp_all add: dispatch_def prod.case_eq_if split: option.splits)

lemma foldl_dispatch_lists [simp]:
  "article_blocks (foldl (dispatch ev) s bs) = article_blocks s"
  "keys (foldl (dispatch ev) s bs) = keys s"
  "doc_version (foldl (dispatch ev) s bs) = doc_version s"
  by (induction bs arbitrary: s) simp_all

lemma prepare_article_lists:
  "keys (prepare_article ev s a) = map bkey (a_blocks a)"
  "doc_version (prepare_article ev s a) = a_doc_version a"
  "article_blocks (prepare_article ev s a) =
     (if a_doc_version a \<le> 2 then normalize_cells 0 (map bkey (a_blocks a)) (a_blocks a)
      else a_blocks a) @ [terminal_block]"
  by (simp_all add: prepare_article_def Let_def)

text \<open>
  Claim C2, as the code has it. Take an article whose document version is not 3 and whose
  blocks have keys that differ from each other, and let \<open>blocks\<close> be its blocks as the depth
  pre-pass leaves them (the pre-pass runs for the versions up to 2 and may set depths to 3).
  In that list take \<open>n\<close> consecutive cells of one depth, after a block that is not a cell of
  that depth, and let the cell cursor be 0 when the blocks before them have been rendered,
  as it is for the first cells of a book. Rendering goes on through the \<open>n\<close> cells by
  appending one table to the body, with the columns of the depth and \<open>ceil(n / columns)\<close>
  rows, all of full width; read row by row, the cells hold what \<^verbatim>\<open>add_text\<close> gives for the
  blocks, in their order, followed by empty cells. The rest of the article is rendered from
  there.
\<close>

theorem cell_run_one_table:
  assumes "a_doc_version a \<noteq> 3" and "distinct (map bkey (a_blocks a))"
    and "blocks = (if a_doc_version a \<le> 2
                   then normalize_cells 0 (map bkey (a_blocks a)) (a_blocks a) else a_blocks a)"
    and "1 \<le> n" and "p + n \<le> length blocks"
    and "\<forall>i. p \<le> i \<and> i < p + n \<longrightarrow> btype (blocks ! i) = ''cell'' \<and> bdepth (blocks ! i) = d"
    and "p = 0 \<or> btype (blocks ! (p - 1)) \<noteq> ''cell'' \<or> bdepth (blocks ! (p - 1)) \<noteq> d"
    and "s = foldl (dispatch ev) (prepare_article ev s0 a) (take p blocks)"
    and "cells s = 0"
  shows "\<exists>rws. body (foldl (dispatch ev) (prepare_article ev s0 a) (take (p + n) blocks)) =
            body s @ [Table (columns_for_depth d) rws] \<and>
          length rws = (n + columns_for_depth d - 1) div columns_for_depth d \<and>
          (\<forall>r \<in> set rws. length r = columns_for_depth d) \<and>
          concat rws = map (block_runs ev s) (take n (drop p blocks)) @
            replicate (length rws * columns_for_depth d - n) [] \<and>
          render_article ev s0 a =
            foldl (dispatch ev) (foldl (dispatch ev) (prepare_article ev s0 a) (take (p + n) blocks))
              (drop (p + n) blocks @ [terminal_block])"
proof -
  let ?s1 = "prepare_article ev s0 a"
  have ab: "article_blocks ?s1 = blocks @ [terminal_block]"
    by (simp only: prepare_article_lists assms(3))
  have ks: "map bkey blocks = map bkey (a_blocks a)"
    by (simp add: assms(3) normalize_cells_keys)
  have v: "doc_version s \<noteq> 3" using assms(1) by (simp add: assms(8) prepare_article_lists)
  have k: "keys s = map bkey blocks" by (simp add: assms(8) prepare_article_lists ks)
  have b: "article_blocks s = blocks @ [terminal_block]" by (simp add: assms(8) ab)
  have dist: "distinct (map bkey blocks)" using assms(2) by (simp only: ks)
  have sp: "take (p + n) blocks = take p blocks @ take n (drop p blocks)"
    by (simp add: take_add)
  have f: "foldl (dispatch ev) ?s1 (take (p + n) blocks) = foldl (dispatch ev) s (take n (drop p blocks))"
    by (simp only: sp foldl_append assms(8))
  have r: "render_article ev s0 a =
      foldl (dispatch ev) (foldl (dispatch ev) ?s1 (take (p + n) blocks))
        (drop (p + n) blocks @ [terminal_block])"
  proof -
    have "blocks @ [terminal_block] = take (p + n) blocks @ (drop (p + n) blocks @ [terminal_block])"
      by simp
    then have "foldl (dispatch ev) ?s1 (blocks @ [terminal_block]) =
        foldl (dispatch ev) (foldl (dispatch ev) ?s1 (take (p + n) blocks))
          (drop (p + n) blocks @ [terminal_block])"
      by (metis foldl_append)
    then show ?thesis by (simp add: render_article_def Let_def ab)
  qed
  from cell_run_state[OF v k b dist assms(9) assms(4) assms(5) assms(6) assms(7), of ev] r
  show ?thesis by (simp only: f) blast
qed

text \<open>An article of version 2 with the three cells \<open>A\<close>, \<open>B\<close>, \<open>C\<close> of depth 0, the
  first article of a book: one table of two columns and two rows, \<open>[A, B]\<close> and
  \<open>[C, ""]\<close>.\<close>

theorem cell_run_one_table_witness:
  "a_doc_version (ex_article 2 abc_cells) \<noteq> 3 \<and> distinct (map bkey abc_cells) \<and>
   normalize_cells 0 (map bkey abc_cells) abc_cells = abc_cells \<and>
   cells (prepare_article ex_env init_exporter (ex_article 2 abc_cells)) = 0 \<and>
   length (table_rows (last (body (foldl (dispatch ex_env)
      (prepare_article ex_env init_exporter (ex_article 2 abc_cells)) abc_cells)))) = 2 \<and>
   tables_of (foldl (dispatch ex_env) (prepare_article ex_env init_exporter (ex_article 2 abc_cells)) abc_cells) =
     [(2, [[''A'', ''B''], [''C'', []]])] \<and>
   tables_of (render_article ex_env init_exporter (ex_article 2 abc_cells)) =
     [(2, [[''A'', ''B''], [''C'', []]])] \<and>
   tables_of (export ex_env three_cells) = [(2, [[''A'', ''B''], [''C'', []]])]"
proof -
  let ?a = "ex_article 2 abc_cells"
  let ?s1 = "prepare_article ex_env init_exporter ?a"
  have h1: "a_doc_version ?a \<noteq> 3" by code_simp
  have h2: "distinct (map bkey (a_blocks ?a))" by code_simp
  have n: "normalize_cells 0 (map bkey abc_cells) abc_cells = abc_cells" by code_simp
  have h3: "abc_cells = (if a_doc_version ?a \<le> 2
                   then normalize_cells 0 (map bkey (a_blocks ?a)) (a_blocks ?a) else a_blocks ?a)"
    using n by (simp add: ex_article_def)
  have h4: "(1::nat) \<le> 3" by simp
  have h5: "0 + 3 \<le> length abc_cells" by code_simp
  have h6: "\<forall>i. 0 \<le> i \<and> i < 0 + 3 \<longrightarrow> btype (abc_cells ! i) = ''cell'' \<and> bdepth (abc_cells ! i) = 0"
    by (auto simp: abc_cells_def ex_block_def less_Suc_eq numeral_3_eq_3)
  have h7: "(0::nat) = 0 \<or> btype (abc_cells ! (0 - 1)) \<noteq> ''cell'' \<or> bdepth (abc_cells ! (0 - 1)) \<noteq> 0"
    by simp
  have h8: "?s1 = foldl (dispatch ex_env) ?s1 (take 0 abc_cells)" by simp
  have h9: "cells ?s1 = 0" by (simp add: init_exporter_def)
  have tk: "take (0 + 3) abc_cells = abc_cells" by code_simp
  have c: "columns_for_depth 0 = 2" by code_simp
  from cell_run_one_table [OF h1 h2 h3 h4 h5 h6 h7 h8 h9]
  obtain rws where
    "body (foldl (dispatch ex_env) ?s1 (take (0 + 3) abc_cells)) =
       body ?s1 @ [Table (columns_for_depth 0) rws]"
    and "length rws = (3 + columns_for_depth 0 - 1) div columns_for_depth 0"
    by blast
  then have bd: "body (foldl (dispatch ex_env) ?s1 abc_cells) = body ?s1 @ [Table 2 rws]"
    and ln: "length rws = 2"
    unfolding tk c by simp_all
  have l: "length (table_rows (last (body (foldl (dispatch ex_env) ?s1 abc_cells)))) = 2"
    using ln by (simp add: bd)
  have t: "tables_of (foldl (dispatch ex_env) ?s1 abc_cells) = [(2, [[''A'', ''B''], [''C'', []]])]"
    by code_simp
  have r: "tables_of (render_article ex_env init_exporter ?a) = [(2, [[''A'', ''B''], [''C'', []]])]"
    by code_simp
  have e: "tables_of (export ex_env three_cells) = [(2, [[''A'', ''B''], [''C'', []]])]"
    by code_simp
  have d: "distinct (map bkey abc_cells)" by code_simp
  from h1 d n h9 l t r e show ?thesis by blast
qed

text \<open>
  With document version 3 the same three cells, the first with a table of three columns in
  its data, give one row of three cells. In the legacy article with the cell \<open>A\<close>, a
  paragraph, and the cells \<open>B\<close> and \<open>C\<close>, all of depth 0, the run \<open>B\<close>, \<open>C\<close>
  starts with the cursor at 1, where the first table left it: its table has the two rows
  \<open>["", B]\<close> and \<open>[C, ""]\<close>. In the legacy article of four cells of depth 1 followed by
  a paragraph of depth 2 the pre-pass sets the depth of the third and the fourth cell to 3:
  two tables are opened, one of four columns and one of three. And three cells of depth 0
  that share one key are each taken for the first block of the article: three tables are
  opened.
\<close>

theorem cell_run_counterexample:
  "tables_of (export ex_env three_cells_v3) = [(3, [[''A'', ''B'', ''C'']])] \<and>
   tables_of (export ex_env cells_after_table) =
     [(2, [[''A'', []]]), (2, [[[], ''B''], [''C'', []]])] \<and>
   map bdepth (a_blocks (hd (articles (hd (books four_cells_then_depth2))))) = [1, 1, 1, 1, 2] \<and>
   tables_of (export ex_env four_cells_then_depth2) =
     [(4, [[''A'', ''B'', [], []]]), (3, [[[], [], ''C''], [''D'', [], []]])] \<and>
   tables_of (export ex_env cells_one_key) =
     [(2, [[''A'', []]]), (2, [[[], ''B'']]), (2, [[[], []], [''C'', []]])]"
  by code_simp

end
